theory Spec2Isabelle
  imports Main "HOL-Library.Word" "HOL-Library.AList"
begin

section \<open>Errors\<close>

type_synonym byte = "8 word"

text \<open>
  Every error value the Go code can produce or propagate.  \<open>Wrapf msg e\<close> stands for
  \<^verbatim>\<open>fmt.Errorf("msg: %w", e)\<close>.  A run-time panic (a slice expression or an index
  out of range) is kept apart from ordinary errors by its own constructors.
\<close>

datatype error =
    EOF
  | ErrUnexpectedEOF
  | ErrNetClosed
  | ErrBrokenPipe
  | ErrBufferFull
  | ErrNoProgress
  | Wrapf string error
  | UnsupportedVersion byte
  | UnsupportedCommand byte
  | UnsupportedAddressType byte
  | PanicSliceBounds nat nat
  | PanicIndex nat nat
  | ConfigError string
  | NoValidRecords
  | OtherError string

fun is_panic :: "error \<Rightarrow> bool" where
  "is_panic (PanicSliceBounds n cap) = True"
| "is_panic (PanicIndex i n) = True"
| "is_panic e = False"

section \<open>The raw connection (net.Conn)\<close>

text \<open>
  A TCP connection as the process sees it.  \<open>incoming\<close> holds the bytes the client
  sends that have not yet been read from the socket, in the segments in which they
  arrive: one \<^verbatim>\<open>Read\<close> returns bytes of one segment only.  When the list is
  exhausted the client has closed its side and \<^verbatim>\<open>Read\<close> returns \<open>EOF\<close>.
  \<open>written\<close> is the log of the successful \<^verbatim>\<open>Write\<close> calls.  \<open>wbudget\<close> is the
  number of further writes the peer accepts (\<open>None\<close>: no limit); the write after the
  last accepted one fails.  \<open>is_closed\<close> is set by \<^verbatim>\<open>Close\<close>.
\<close>

record netconn =
  incoming :: "byte list list"
  written :: "byte list list"
  wbudget :: "nat option"
  is_closed :: bool

fun next_chunk :: "nat \<Rightarrow> byte list list \<Rightarrow> (byte list \<times> byte list list) option" where
  "next_chunk cap [] = None"
| "next_chunk cap (s # ss) =
     (if s = [] then next_chunk cap ss
      else if length s \<le> cap then Some (s, ss)
      else Some (take cap s, drop cap s # ss))"

definition conn_Read :: "nat \<Rightarrow> netconn \<Rightarrow> (error + byte list) \<times> netconn" where
  "conn_Read cap c =
     (if is_closed c then (Inl ErrNetClosed, c)
      else if cap = 0 then (Inr [], c)
      else (case next_chunk cap (incoming c) of
              None \<Rightarrow> (Inl EOF, c\<lparr>incoming := []\<rparr>)
            | Some (d, ss) \<Rightarrow> (Inr d, c\<lparr>incoming := ss\<rparr>)))"

definition conn_Write :: "byte list \<Rightarrow> netconn \<Rightarrow> error option \<times> netconn" where
  "conn_Write p c =
     (if is_closed c then (Some ErrNetClosed, c)
      else (case wbudget c of
              None \<Rightarrow> (None, c\<lparr>written := written c @ [p]\<rparr>)
            | Some 0 \<Rightarrow> (Some ErrBrokenPipe, c)
            | Some (Suc k) \<Rightarrow> (None, c\<lparr>written := written c @ [p], wbudget := Some k\<rparr>)))"

definition conn_Close :: "netconn \<Rightarrow> netconn" where
  "conn_Close c = c\<lparr>is_closed := True\<rparr>"

section \<open>PeekConn: a connection behind a bufio.Reader\<close>

text \<open>
  \<^verbatim>\<open>type PeekConn struct { net.Conn; r *bufio.Reader }\<close>.  The reader is modelled by
  the bytes it holds that have been taken from the socket and not yet handed out
  (\<^verbatim>\<open>b.buf[b.r:b.w]\<close>); its buffer has \<open>defaultBufSize\<close> bytes.  \<^verbatim>\<open>Write\<close> and
  \<^verbatim>\<open>Close\<close> are the embedded connection's, \<^verbatim>\<open>Read\<close> and \<^verbatim>\<open>Peek\<close> go through
  the reader.
\<close>

record PeekConn =
  Conn :: netconn
  rbuf :: "byte list"

definition defaultBufSize :: nat where
  "defaultBufSize = 4096"

definition NewPeekConn :: "netconn \<Rightarrow> PeekConn" where
  "NewPeekConn c = \<lparr>Conn = c, rbuf = []\<rparr>"

text \<open>
  The loop of \<^verbatim>\<open>bufio.Reader.Peek\<close>: fill the buffer from the socket until it holds
  \<open>n\<close> bytes, is full, or a read fails.
\<close>

function fill_until :: "nat \<Rightarrow> PeekConn \<Rightarrow> error option \<times> PeekConn" where
  "fill_until n c =
     (if length (rbuf c) < n \<and> length (rbuf c) < defaultBufSize then
        (case conn_Read (defaultBufSize - length (rbuf c)) (Conn c) of
           (Inl e, nc) \<Rightarrow> (Some e, c\<lparr>Conn := nc\<rparr>)
         | (Inr d, nc) \<Rightarrow>
             if d = [] then (Some ErrNoProgress, c\<lparr>Conn := nc\<rparr>)
             else fill_until n (c\<lparr>Conn := nc, rbuf := rbuf c @ d\<rparr>))
      else (None, c))"
  by pat_completeness auto
termination
  by (relation "measure (\<lambda>(n, c). defaultBufSize - length (rbuf c))")
     (auto simp add: neq_Nil_conv)

declare fill_until.simps [simp del]

definition Peek :: "nat \<Rightarrow> PeekConn \<Rightarrow> (byte list \<times> error option) \<times> PeekConn" where
  "Peek n c =
     (case fill_until n c of (e, c') \<Rightarrow>
        if defaultBufSize < n then ((rbuf c', Some ErrBufferFull), c')
        else if length (rbuf c') < n then
          ((rbuf c', Some (case e of Some err \<Rightarrow> err | None \<Rightarrow> ErrBufferFull)), c')
        else ((take n (rbuf c'), None), c'))"

text \<open>\<^verbatim>\<open>bufio.Reader.Read(p)\<close> with \<open>n = len(p)\<close>: at most one read of the socket.\<close>

definition Read :: "nat \<Rightarrow> PeekConn \<Rightarrow> (error + byte list) \<times> PeekConn" where
  "Read n c =
     (if n = 0 then (Inr [], c)
      else if rbuf c = [] then
        (if defaultBufSize \<le> n then
           (case conn_Read n (Conn c) of (res, nc) \<Rightarrow> (res, c\<lparr>Conn := nc\<rparr>))
         else
           (case conn_Read defaultBufSize (Conn c) of
              (Inl e, nc) \<Rightarrow> (Inl e, c\<lparr>Conn := nc\<rparr>)
            | (Inr d, nc) \<Rightarrow> (Inr (take n d), c\<lparr>Conn := nc, rbuf := drop n d\<rparr>)))
      else (Inr (take n (rbuf c)), c\<lparr>rbuf := drop n (rbuf c)\<rparr>))"

definition Write :: "byte list \<Rightarrow> PeekConn \<Rightarrow> error option \<times> PeekConn" where
  "Write p c = (case conn_Write p (Conn c) of (e, nc) \<Rightarrow> (e, c\<lparr>Conn := nc\<rparr>))"

definition Close :: "PeekConn \<Rightarrow> PeekConn" where
  "Close c = c\<lparr>Conn := conn_Close (Conn c)\<rparr>"

section \<open>io.ReadFull\<close>

text \<open>
  The loop of \<^verbatim>\<open>io.ReadAtLeast(r, buf, min)\<close> with \<open>min = len(buf)\<close>: call
  \<^verbatim>\<open>Read(buf[n:])\<close> until \<open>min\<close> bytes are there or a read fails; \<open>acc\<close> holds the
  bytes read so far.  An \<open>EOF\<close> after some bytes becomes \<open>ErrUnexpectedEOF\<close>.
\<close>

function ReadAtLeast :: "nat \<Rightarrow> byte list \<Rightarrow> PeekConn \<Rightarrow> (error + byte list) \<times> PeekConn" where
  "ReadAtLeast m acc c =
     (if length acc < m then
        (case Read (m - length acc) c of
           (Inl e, c') \<Rightarrow> (Inl (if acc \<noteq> [] \<and> e = EOF then ErrUnexpectedEOF else e), c')
         | (Inr d, c') \<Rightarrow> ReadAtLeast m (acc @ d) c')
      else (Inr acc, c))"
  by pat_completeness auto
termination
proof (relation "measure (\<lambda>(m, acc, c). m - length acc)")
  show "wf (measure (\<lambda>(m, acc, c). m - length acc))"
    by simp
next
  fix m :: nat and acc :: "byte list" and c :: PeekConn and x y d
  assume less: "length acc < m"
    and rd: "(x, y) = Read (m - length acc) c"
    and x: "x = Inr d"
  have chunk: "d' \<noteq> []" if "next_chunk cap ss = Some (d', r)" "0 < cap" for cap ss d' r
    using that by (induction ss) (auto split: if_splits)
  have raw: "d' \<noteq> []" if "conn_Read cap nc = (Inr d', nc')" "0 < cap" for cap nc d' nc'
    using that chunk by (auto simp: conn_Read_def split: if_splits option.splits)
  have "d \<noteq> []"
    using rd [symmetric] less raw unfolding x Read_def defaultBufSize_def
    by (auto split: if_splits prod.splits sum.splits)
  then show "((m, acc @ d, y), (m, acc, c)) \<in> measure (\<lambda>(m, acc, c). m - length acc)"
    using less by (cases d) auto
qed

declare ReadAtLeast.simps [simp del]

text \<open>
  \<^verbatim>\<open>io.ReadFull(conn, buf[:n])\<close>.  The slice expression panics when \<open>n\<close> exceeds the
  capacity of \<open>buf\<close>; otherwise \<open>n\<close> bytes are read into the front of \<open>buf\<close>, whose
  new contents are returned.
\<close>

definition ReadFull :: "byte list \<Rightarrow> nat \<Rightarrow> PeekConn \<Rightarrow> (error + byte list) \<times> PeekConn" where
  "ReadFull buf n c =
     (if length buf < n then (Inl (PanicSliceBounds n (length buf)), c)
      else (case ReadAtLeast n [] c of
              (Inl e, c') \<Rightarrow> (Inl e, c')
            | (Inr d, c') \<Rightarrow> (Inr (d @ drop n buf), c')))"

section \<open>Sequencing fallible steps\<close>

text \<open>
  Go's \<^verbatim>\<open>if _, err := step(); err != nil { return ... }\<close>: run a step on the
  connection; an error ends the function, a result is passed on.
\<close>

definition andThen ::
  "(PeekConn \<Rightarrow> (error + 'a) \<times> PeekConn) \<Rightarrow> ('a \<Rightarrow> PeekConn \<Rightarrow> (error + 'b) \<times> PeekConn)
     \<Rightarrow> PeekConn \<Rightarrow> (error + 'b) \<times> PeekConn" where
  "andThen m f c = (case m c of (Inl e, c') \<Rightarrow> (Inl e, c') | (Inr x, c') \<Rightarrow> f x c')"

definition failWith :: "error \<Rightarrow> PeekConn \<Rightarrow> (error + 'a) \<times> PeekConn" where
  "failWith e c = (Inl e, c)"

text \<open>\<^verbatim>\<open>fmt.Errorf("msg: %w", err)\<close> around a step; a panic is not an error value.\<close>

definition wrapf ::
  "string \<Rightarrow> (PeekConn \<Rightarrow> (error + 'a) \<times> PeekConn) \<Rightarrow> PeekConn \<Rightarrow> (error + 'a) \<times> PeekConn" where
  "wrapf msg m c =
     (case m c of
        (Inl e, c') \<Rightarrow> (Inl (if is_panic e then e else Wrapf msg e), c')
      | (Inr x, c') \<Rightarrow> (Inr x, c'))"

text \<open>\<^verbatim>\<open>buf[i]\<close>: panics when \<open>i\<close> is out of range.\<close>

definition at :: "byte list \<Rightarrow> nat \<Rightarrow> PeekConn \<Rightarrow> (error + byte) \<times> PeekConn" where
  "at buf i c = (if i < length buf then (Inr (buf ! i), c) else (Inl (PanicIndex i (length buf)), c))"

definition writeAll :: "byte list \<Rightarrow> PeekConn \<Rightarrow> (error + unit) \<times> PeekConn" where
  "writeAll p c = (case Write p c of (Some e, c') \<Rightarrow> (Inl e, c') | (None, c') \<Rightarrow> (Inr (), c'))"

section \<open>handleSocks5Handshake\<close>

definition socks5Reply :: "byte list" where
  "socks5Reply = [0x05, 0x00, 0x00, 0x01, 0x00, 0x00, 0x00, 0x00, 0x00, 0x00]"

text \<open>
  The body of \<^verbatim>\<open>handleSocks5Handshake\<close> after \<^verbatim>\<open>buf := make([]byte, 258)\<close>, with the
  scratch buffer as an argument.  Every \<^verbatim>\<open>io.ReadFull(conn, buf[:n])\<close> reads into the
  front of the same buffer.
\<close>

definition handshakeBody :: "byte list \<Rightarrow> PeekConn \<Rightarrow> (error + unit) \<times> PeekConn" where
  "handshakeBody buf0 =
     andThen (wrapf ''read greeting header'' (ReadFull buf0 2)) (\<lambda>buf.
     andThen (at buf 0) (\<lambda>ver.
     if ver \<noteq> 5 then failWith (UnsupportedVersion ver) else
     andThen (at buf 1) (\<lambda>nMethods.
     andThen (wrapf ''read methods'' (ReadFull buf (unat nMethods))) (\<lambda>buf.
     andThen (wrapf ''write choice'' (writeAll [0x05, 0x00])) (\<lambda>_.
     andThen (wrapf ''read request header'' (ReadFull buf 4)) (\<lambda>buf.
     andThen (at buf 1) (\<lambda>cmd.
     if cmd \<noteq> 1 then failWith (UnsupportedCommand cmd) else
     andThen (at buf 3) (\<lambda>atyp.
     andThen
       (if atyp = 1 then ReadFull buf 4
        else if atyp = 3 then
          andThen (ReadFull buf 1) (\<lambda>buf.
          andThen (at buf 0) (\<lambda>addrLen.
          ReadFull buf (unat addrLen)))
        else if atyp = 4 then ReadFull buf 16
        else failWith (UnsupportedAddressType atyp)) (\<lambda>buf.
     andThen (ReadFull buf 2) (\<lambda>buf.
     wrapf ''write reply'' (writeAll socks5Reply)))))))))))"

definition handleSocks5Handshake :: "PeekConn \<Rightarrow> error option \<times> PeekConn" where
  "handleSocks5Handshake conn =
     (case handshakeBody (replicate 258 0) conn of
        (Inl e, c) \<Rightarrow> (Some e, c)
      | (Inr u, c) \<Rightarrow> (None, c))"

section \<open>handleConnection\<close>

text \<open>
  The \<^verbatim>\<open>select\<close> that ends \<^verbatim>\<open>handleConnection\<close> has two cases; which one
  fires is decided by the other goroutines and is an input of the model.
\<close>

datatype select_case = SendConn | ListenerClosed

text \<open>
  What becomes of the connection: handed to the HTTP server through the
  listener's channel, closed and dropped, or the goroutine panics.
\<close>

datatype outcome = Delivered PeekConn | Dropped PeekConn | Panicked error

definition handleConnection :: "netconn \<Rightarrow> select_case \<Rightarrow> outcome" where
  "handleConnection rawConn sel =
     (case Peek 1 (NewPeekConn rawConn) of
        ((head, Some err), conn) \<Rightarrow> Dropped (Close conn)
      | ((head, None), conn) \<Rightarrow>
          (case head of
             [] \<Rightarrow> Panicked (PanicIndex 0 0)
           | h # t \<Rightarrow>
               (case (if h = 0x05 then handleSocks5Handshake conn else (None, conn)) of
                  (Some err, conn') \<Rightarrow>
                    if is_panic err then Panicked err else Dropped (Close conn')
                | (None, conn') \<Rightarrow>
                    (case sel of
                       SendConn \<Rightarrow> Delivered conn'
                     | ListenerClosed \<Rightarrow> Dropped (Close conn')))))"

section \<open>What a connection looks like from outside\<close>

text \<open>
  The bytes of the client that no \<^verbatim>\<open>Read\<close> has handed out yet, in order: those the
  reader has buffered, then those still in the socket.  This is the read position of
  the connection.
\<close>

definition unread :: "PeekConn \<Rightarrow> byte list" where
  "unread c = rbuf c @ concat (incoming (Conn c))"

definition outside :: "PeekConn \<Rightarrow> byte list list \<times> nat option \<times> bool" where
  "outside c = (written (Conn c), wbudget (Conn c), is_closed (Conn c))"

text \<open>The connection is open and its peer takes at least \<open>k\<close> more writes.\<close>

definition accepts :: "nat \<Rightarrow> PeekConn \<Rightarrow> bool" where
  "accepts k c =
     (\<not> is_closed (Conn c) \<and> (case wbudget (Conn c) of None \<Rightarrow> True | Some b \<Rightarrow> k \<le> b))"

text \<open>What \<^verbatim>\<open>io.ReadFull\<close> of \<open>n\<close> bytes reports on a stream that holds \<open>s\<close>.\<close>

definition readOutcome :: "nat \<Rightarrow> byte list \<Rightarrow> error option" where
  "readOutcome n s =
     (if n \<le> length s then None else Some (if s = [] then EOF else ErrUnexpectedEOF))"

section \<open>The SOCKS5 wire format (RFC 1928)\<close>

text \<open>
  The byte strings a client sends: the greeting (version 5, the number of methods, the
  methods) and the CONNECT request (version, command 1, reserved, the address tagged
  with its type, two port bytes).  They state what a syntactically valid input is; the
  code is not derived from them.
\<close>

datatype socks_addr = IPv4 byte byte byte byte | DomainName "byte list" | IPv6 "byte list"

fun addr_ok :: "socks_addr \<Rightarrow> bool" where
  "addr_ok (IPv4 a b c d) = True"
| "addr_ok (DomainName n) = (length n \<le> 255)"
| "addr_ok (IPv6 bs) = (length bs = 16)"

fun addr_bytes :: "socks_addr \<Rightarrow> byte list" where
  "addr_bytes (IPv4 a b c d) = [0x01, a, b, c, d]"
| "addr_bytes (DomainName n) = 0x03 # of_nat (length n) # n"
| "addr_bytes (IPv6 bs) = 0x04 # bs"

definition greeting_bytes :: "byte list \<Rightarrow> byte list" where
  "greeting_bytes methods = 0x05 # of_nat (length methods) # methods"

definition connect_bytes :: "byte \<Rightarrow> byte \<Rightarrow> socks_addr \<Rightarrow> byte \<Rightarrow> byte \<Rightarrow> byte list" where
  "connect_bytes ver rsv addr p1 p2 = [ver, 0x01, rsv] @ addr_bytes addr @ [p1, p2]"

text \<open>
  The bytes after the 4-byte request header are enough for the address of type
  \<open>atyp\<close> and the port.
\<close>

definition enough_for :: "byte \<Rightarrow> byte list \<Rightarrow> bool" where
  "enough_for atyp tail =
     (if atyp = 1 then 4 + 2 \<le> length tail
      else if atyp = 3 then (case tail of [] \<Rightarrow> False | l # t \<Rightarrow> unat l + 2 \<le> length t)
      else if atyp = 4 then 16 + 2 \<le> length tail
      else True)"

section \<open>Strings\<close>

text \<open>
  Go strings are byte strings.  \<^verbatim>\<open>strings.ToLower\<close> is modelled on ASCII: the letters
  \<open>A\<close> to \<open>Z\<close> are mapped to \<open>a\<close> to \<open>z\<close> and every other byte is kept (Go also
  lower-cases letters outside ASCII).
\<close>

definition toLowerChar :: "char \<Rightarrow> char" where
  "toLowerChar c =
     (let n = (of_char c :: nat) in if 65 \<le> n \<and> n \<le> 90 then char_of (n + 32) else c)"

definition ToLower :: "string \<Rightarrow> string" where
  "ToLower s = map toLowerChar s"

text \<open>\<^verbatim>\<open>strings.Split(s, sep)\<close> for a separator of one byte.\<close>

fun Split :: "string \<Rightarrow> char \<Rightarrow> string list" where
  "Split [] sep = [[]]"
| "Split (c # cs) sep =
     (if c = sep then [] # Split cs sep
      else (case Split cs sep of [] \<Rightarrow> [[c]] | p # ps \<Rightarrow> (c # p) # ps))"

text \<open>\<^verbatim>\<open>strings.TrimRight(s, cutset)\<close> and \<^verbatim>\<open>strings.TrimLeft(s, cutset)\<close> for a cutset of one byte.\<close>

definition TrimRight :: "string \<Rightarrow> char \<Rightarrow> string" where
  "TrimRight s ch = rev (dropWhile (\<lambda>c. c = ch) (rev s))"

definition TrimLeft :: "string \<Rightarrow> char \<Rightarrow> string" where
  "TrimLeft s ch = dropWhile (\<lambda>c. c = ch) s"

text \<open>
  \<^verbatim>\<open>strings.ReplaceAll(s, "//", "/")\<close>: one pass from the left over the
  non-overlapping occurrences of two slashes.
\<close>

fun ReplaceAll_slashes :: "string \<Rightarrow> string" where
  "ReplaceAll_slashes (a # b # s) =
     (if a = CHR ''/'' \<and> b = CHR ''/'' then CHR ''/'' # ReplaceAll_slashes s
      else a # ReplaceAll_slashes (b # s))"
| "ReplaceAll_slashes s = s"

text \<open>A string holds two, or three, slashes in a row.\<close>

fun double_slash :: "string \<Rightarrow> bool" where
  "double_slash (a # b # s) = ((a = CHR ''/'' \<and> b = CHR ''/'') \<or> double_slash (b # s))"
| "double_slash s = False"

fun triple_slash :: "string \<Rightarrow> bool" where
  "triple_slash (a # b # c # s) =
     ((a = CHR ''/'' \<and> b = CHR ''/'' \<and> c = CHR ''/'') \<or> triple_slash (b # c # s))"
| "triple_slash s = False"

section \<open>The mapping table and its loader\<close>

record Config =
  Port :: string
  ConfigFile :: string

record Record =
  ID :: int
  ShortURL :: string
  LongURL :: string
  Protocol :: string
  TicketID :: string
  UserID :: "string option"
  Department :: "string option"
  Username :: "string option"
  AllowURIConcat :: bool

record APIResponse =
  Success :: bool
  Message :: string
  TimeTaken :: int
  Data :: "Record list"

text \<open>
  \<^verbatim>\<open>shortLinkMap\<close> is a Go map, kept as an association list with one entry per key;
  \<^verbatim>\<open>m[k] = v\<close> is \<open>AList.update k v m\<close>, \<^verbatim>\<open>m[k]\<close> is \<open>map_of m k\<close> and
  \<^verbatim>\<open>len(m)\<close> is \<open>length m\<close>.  \<open>lastSyncTime\<close> is a point in time, \<open>requestCount\<close> a
  \<^verbatim>\<open>uint64\<close>.  The two mutexes guard concurrent access and have no counterpart here.
\<close>

record ProxyServer =
  config :: Config
  shortLinkMap :: "(string \<times> string) list"
  lastSyncTime :: nat
  requestCount :: "64 word"

definition NewProxyServer :: "Config \<Rightarrow> ProxyServer" where
  "NewProxyServer cfg = \<lparr>config = cfg, shortLinkMap = [], lastSyncTime = 0, requestCount = 0\<rparr>"

text \<open>The loop of \<^verbatim>\<open>loadMappingsFromFile\<close> that fills \<^verbatim>\<open>newMap\<close>.\<close>

fun buildMap :: "(string \<times> string) list \<Rightarrow> Record list \<Rightarrow> (string \<times> string) list" where
  "buildMap newMap [] = newMap"
| "buildMap newMap (record # records) =
     (if ShortURL record \<noteq> [] \<and> LongURL record \<noteq> [] then
        buildMap (AList.update (ToLower (ShortURL record))
                    (Protocol record @ ''://'' @ LongURL record) newMap) records
      else buildMap newMap records)"

text \<open>
  \<^verbatim>\<open>loadMappingsFromFile\<close>.  The file system (\<^verbatim>\<open>os.ReadFile\<close>), the JSON decoder
  (\<^verbatim>\<open>json.Unmarshal\<close> into an \<^verbatim>\<open>APIResponse\<close>) and the clock (\<^verbatim>\<open>time.Now\<close>) are
  arguments.
\<close>

definition loadMappingsFromFile ::
  "(string \<Rightarrow> error + string) \<Rightarrow> (string \<Rightarrow> error + APIResponse) \<Rightarrow> nat
     \<Rightarrow> ProxyServer \<Rightarrow> error option \<times> ProxyServer" where
  "loadMappingsFromFile readFile unmarshal now ps =
     (case readFile (ConfigFile (config ps)) of
        Inl err \<Rightarrow> (Some err, ps)
      | Inr body \<Rightarrow>
          (case unmarshal body of
             Inl err \<Rightarrow> (Some err, ps)
           | Inr apiResp \<Rightarrow>
               if \<not> Success apiResp then (Some (ConfigError (Message apiResp)), ps)
               else
                 (let newMap = buildMap [] (Data apiResp) in
                  if length newMap = 0 then (Some NoValidRecords, ps)
                  else (None, ps\<lparr>shortLinkMap := newMap, lastSyncTime := now\<rparr>))))"

section \<open>The HTTP handler\<close>

text \<open>\<^verbatim>\<open>url.URL\<close> of Go's \<^verbatim>\<open>net/url\<close>.\<close>

record url =
  Scheme :: string
  Opaque :: string
  User :: "string option"
  Host :: string
  Path :: string
  RawPath :: string
  OmitHost :: bool
  ForceQuery :: bool
  RawQuery :: string
  Fragment :: string
  RawFragment :: string

text \<open>The fields of \<^verbatim>\<open>http.Request\<close> the handler reads.\<close>

record Request =
  req_URL :: url
  req_Host :: string

text \<open>
  What the handler does with the response writer: \<^verbatim>\<open>http.Error(w, msg, code)\<close>,
  \<^verbatim>\<open>http.Redirect(w, r, url, code)\<close>, the status document of \<^verbatim>\<open>handleCheck\<close>
  (number of mappings, time of the last load, request count, port and file of the
  configuration; the up to five sample mappings, which Go takes in the random order of
  its map iteration, are left out), or the PAC script of \<^verbatim>\<open>handlePac\<close> for a port.
\<close>

datatype response =
    HttpError string nat
  | HttpRedirect string nat
  | StatusDocument nat nat "64 word" string string
  | PacScript string
  | HandlerPanic error

definition handleCheck :: "ProxyServer \<Rightarrow> response" where
  "handleCheck ps =
     StatusDocument (length (shortLinkMap ps)) (lastSyncTime ps) (requestCount ps)
       (Port (config ps)) (ConfigFile (config ps))"

definition handlePac :: "ProxyServer \<Rightarrow> response" where
  "handlePac ps = PacScript (Port (config ps))"

text \<open>
  \<^verbatim>\<open>handleRequest\<close>.  \<^verbatim>\<open>url.Parse\<close> and \<^verbatim>\<open>(*URL).String\<close> of the standard library
  are arguments.
\<close>

definition handleRequest ::
  "(string \<Rightarrow> error + url) \<Rightarrow> (url \<Rightarrow> string) \<Rightarrow> ProxyServer \<Rightarrow> Request
     \<Rightarrow> response \<times> ProxyServer" where
  "handleRequest url_Parse url_String ps r =
     (if Path (req_URL r) = ''/check'' \<or> Path (req_URL r) = ''/health'' then (handleCheck ps, ps)
      else if Path (req_URL r) = ''/proxy.pac'' then (handlePac ps, ps)
      else
        (let ps' = ps\<lparr>requestCount := requestCount ps + 1\<rparr>;
             host = req_Host r
         in if host = [] then (HttpError ''Host header is required'' 400, ps')
            else
              (case Split host CHR '':'' of
                 [] \<Rightarrow> (HandlerPanic (PanicIndex 0 0), ps')
               | part # parts \<Rightarrow>
                   (let requestedHost = ToLower part in
                    case map_of (shortLinkMap ps') requestedHost of
                      None \<Rightarrow>
                        (HttpError (''No short link mapping found for '' @ [CHR 0x22]
                                      @ requestedHost @ [CHR 0x22]) 404, ps')
                    | Some targetURL \<Rightarrow>
                        (case url_Parse targetURL of
                           Inl err \<Rightarrow> (HttpError ''Internal configuration error'' 500, ps')
                         | Inr parsedTarget \<Rightarrow>
                             (let t1 = parsedTarget\<lparr>Path :=
                                         TrimRight (Path parsedTarget) CHR ''/'' @ ''/''
                                           @ TrimLeft (Path (req_URL r)) CHR ''/''\<rparr>;
                                  t2 = t1\<lparr>RawQuery := RawQuery (req_URL r)\<rparr>;
                                  t3 = t2\<lparr>Fragment := Fragment (req_URL r)\<rparr>;
                                  t4 = t3\<lparr>Path := ReplaceAll_slashes (Path t3)\<rparr>;
                                  finalURL = url_String t4
                              in (HttpRedirect finalURL 302, ps')))))))"

text \<open>The host a request asks for: the Host header up to its first colon, lower-cased.\<close>

definition requestedHostOf :: "string \<Rightarrow> string" where
  "requestedHostOf host = ToLower (takeWhile (\<lambda>c. c \<noteq> CHR '':'') host)"

text \<open>The path of the redirect, from the path of the parsed target and of the request.\<close>

definition joinedPath :: "string \<Rightarrow> string \<Rightarrow> string" where
  "joinedPath base reqPath =
     ReplaceAll_slashes (TrimRight base CHR ''/'' @ ''/'' @ TrimLeft reqPath CHR ''/'')"

section \<open>A model of net/url for plain URLs\<close>

text \<open>
  \<^verbatim>\<open>url.Parse\<close> and \<^verbatim>\<open>(*URL).String\<close> belong to Go's standard library.  The two
  functions below follow their steps on URLs of the shape
  \<^verbatim>\<open>scheme://host/path?query#fragment\<close> whose host is made of letters, digits, hyphens
  and dots and whose path, query and fragment hold no byte that needs percent-encoding:
  user information, port and host validation, control bytes and percent-decoding are
  not modelled.  They serve to evaluate the handler on concrete requests.
\<close>

definition isLetter :: "char \<Rightarrow> bool" where
  "isLetter c =
     (let n = (of_char c :: nat) in (97 \<le> n \<and> n \<le> 122) \<or> (65 \<le> n \<and> n \<le> 90))"

definition isSchemeSign :: "char \<Rightarrow> bool" where
  "isSchemeSign c =
     (let n = (of_char c :: nat) in
        (48 \<le> n \<and> n \<le> 57) \<or> c = CHR ''+'' \<or> c = CHR ''-'' \<or> c = CHR ''.'')"

text \<open>The loop of \<^verbatim>\<open>getScheme\<close>: \<open>pre\<close> is \<^verbatim>\<open>rawURL[:i]\<close>.\<close>

fun scanScheme :: "string \<Rightarrow> string \<Rightarrow> string \<Rightarrow> error + (string \<times> string)" where
  "scanScheme pre [] rawURL = Inr ([], rawURL)"
| "scanScheme pre (c # cs) rawURL =
     (if isLetter c then scanScheme (pre @ [c]) cs rawURL
      else if isSchemeSign c then
        (if pre = [] then Inr ([], rawURL) else scanScheme (pre @ [c]) cs rawURL)
      else if c = CHR '':'' then
        (if pre = [] then Inl (OtherError ''missing protocol scheme'') else Inr (pre, cs))
      else Inr ([], rawURL))"

definition getScheme :: "string \<Rightarrow> error + (string \<times> string)" where
  "getScheme rawURL = scanScheme [] rawURL rawURL"

text \<open>\<^verbatim>\<open>strings.Cut(s, sep)\<close> for a separator of one byte.\<close>

definition Cut :: "string \<Rightarrow> char \<Rightarrow> string \<times> string" where
  "Cut s sep = (takeWhile (\<lambda>c. c \<noteq> sep) s, drop 1 (dropWhile (\<lambda>c. c \<noteq> sep) s))"

definition emptyURL :: url where
  "emptyURL = \<lparr>Scheme = [], Opaque = [], User = None, Host = [], Path = [], RawPath = [],
                OmitHost = False, ForceQuery = False, RawQuery = [], Fragment = [],
                RawFragment = []\<rparr>"

definition plain_Parse :: "string \<Rightarrow> error + url" where
  "plain_Parse rawURL =
     (case Cut rawURL CHR ''#'' of (u, frag) \<Rightarrow>
      case getScheme u of
        Inl err \<Rightarrow> Inl err
      | Inr (scheme, rest0) \<Rightarrow>
          (let force = (rest0 \<noteq> [] \<and> last rest0 = CHR ''?'' \<and> count_list rest0 CHR ''?'' = 1);
               rest = (if force then butlast rest0 else fst (Cut rest0 CHR ''?''));
               query = (if force then [] else snd (Cut rest0 CHR ''?''));
               url0 = emptyURL\<lparr>Scheme := ToLower scheme, ForceQuery := force,
                                 RawQuery := query, Fragment := frag\<rparr>
           in if take 1 rest \<noteq> ''/'' \<and> scheme \<noteq> [] then Inr (url0\<lparr>Opaque := rest\<rparr>)
              else if take 1 rest \<noteq> ''/'' \<and> CHR '':'' \<in> set (fst (Cut rest CHR ''/'')) then
                Inl (OtherError ''first path segment in URL cannot contain colon'')
              else if (scheme \<noteq> [] \<or> take 3 rest \<noteq> ''///'') \<and> take 2 rest = ''//'' then
                Inr (url0\<lparr>Host := takeWhile (\<lambda>c. c \<noteq> CHR ''/'') (drop 2 rest),
                           Path := dropWhile (\<lambda>c. c \<noteq> CHR ''/'') (drop 2 rest)\<rparr>)
              else if scheme \<noteq> [] \<and> take 1 rest = ''/'' then
                Inr (url0\<lparr>OmitHost := True, Path := rest\<rparr>)
              else Inr (url0\<lparr>Path := rest\<rparr>)))"

definition plain_String :: "url \<Rightarrow> string" where
  "plain_String u =
     (let s1 = (if Scheme u \<noteq> [] then Scheme u @ '':'' else []);
          s2 =
            (if Opaque u \<noteq> [] then s1 @ Opaque u
             else
               (let s3 =
                      (if Scheme u \<noteq> [] \<or> Host u \<noteq> [] \<or> User u \<noteq> None then
                         (if OmitHost u \<and> Host u = [] \<and> User u = None then s1
                          else s1
                               @ (if Host u \<noteq> [] \<or> Path u \<noteq> [] \<or> User u \<noteq> None then ''//'' else [])
                               @ (case User u of None \<Rightarrow> [] | Some ui \<Rightarrow> ui @ ''@'')
                               @ Host u)
                       else s1);
                    s4 = (if Path u \<noteq> [] \<and> take 1 (Path u) \<noteq> ''/'' \<and> Host u \<noteq> [] then s3 @ ''/'' else s3);
                    s5 = (if s4 = [] \<and> CHR '':'' \<in> set (fst (Cut (Path u) CHR ''/'')) then ''./'' else s4)
                in s5 @ Path u));
          s6 = (if ForceQuery u \<or> RawQuery u \<noteq> [] then s2 @ ''?'' @ RawQuery u else s2)
      in if Fragment u \<noteq> [] then s6 @ ''#'' @ Fragment u else s6)"

section \<open>Concrete connections\<close>

text \<open>
  A SOCKS5 client that offers one method and asks to CONNECT to a two-byte domain name,
  port 80, followed by three bytes of payload, on a connection that takes two writes;
  the same with an IPv4 address and a request version byte of 9; a client whose greeting
  announces 255 methods and sends two; an HTTP client; a client whose first byte is 4.
\<close>

definition conn_domain :: PeekConn where
  "conn_domain =
     \<lparr>Conn = \<lparr>incoming = [[5, 1, 0, 5, 1, 0], [3, 2, 7, 8, 0, 80, 71, 69, 84]], written = [],
              wbudget = Some 2, is_closed = False\<rparr>, rbuf = []\<rparr>"

definition conn_version9 :: PeekConn where
  "conn_version9 =
     \<lparr>Conn = \<lparr>incoming = [[5, 1, 0], [9, 1, 0, 1, 10, 0, 0, 1, 0, 80]], written = [],
              wbudget = None, is_closed = False\<rparr>, rbuf = []\<rparr>"

definition conn_short :: PeekConn where
  "conn_short =
     \<lparr>Conn = \<lparr>incoming = [[5, 255, 0, 1]], written = [], wbudget = None, is_closed = False\<rparr>,
      rbuf = []\<rparr>"

definition raw_http :: netconn where
  "raw_http =
     \<lparr>incoming = [[71, 69], [84, 32, 47]], written = [], wbudget = None, is_closed = False\<rparr>"

definition raw_v4 :: netconn where
  "raw_v4 = \<lparr>incoming = [[0x04, 0x01], [0x00]], written = [], wbudget = None, is_closed = False\<rparr>"

section \<open>Concrete table and requests\<close>

text \<open>
  The scenario of the specification: a document with the one record
  \<^verbatim>\<open>{"shortUrl":"idev","longUrl":"internal.example.com/app","protocol":...}\<close>, the server
  after loading it at time 7, and a request with a Host header, a path and a query.
\<close>

definition scenario_config :: Config where
  "scenario_config = \<lparr>Port = ''80'', ConfigFile = ''config.json''\<rparr>"

definition scenario_record :: "string \<Rightarrow> Record" where
  "scenario_record proto =
     \<lparr>ID = 0, ShortURL = ''idev'', LongURL = ''internal.example.com/app'', Protocol = proto,
      TicketID = [], UserID = None, Department = None, Username = None,
      AllowURIConcat = False\<rparr>"

definition scenario_doc :: "string \<Rightarrow> APIResponse" where
  "scenario_doc proto = \<lparr>Success = True, Message = [], TimeTaken = 0, Data = [scenario_record proto]\<rparr>"

definition scenario_server :: "string \<Rightarrow> ProxyServer" where
  "scenario_server proto =
     snd (loadMappingsFromFile (\<lambda>path. Inr []) (\<lambda>body. Inr (scenario_doc proto)) 7
            (NewProxyServer scenario_config))"

definition scenario_request :: "string \<Rightarrow> string \<Rightarrow> string \<Rightarrow> Request" where
  "scenario_request host path query =
     \<lparr>req_URL = emptyURL\<lparr>Path := path, RawQuery := query\<rparr>, req_Host = host\<rparr>"

section \<open>Reading: the reader and the socket hold one stream\<close>

lemma next_chunk_None: "next_chunk cap ss = None \<Longrightarrow> concat ss = []"
  by (induction ss) (auto split: if_splits)

lemma next_chunk_Some:
  "next_chunk cap ss = Some (d, r) \<Longrightarrow> 0 < cap \<Longrightarrow>
     d \<noteq> [] \<and> length d \<le> cap \<and> d @ concat r = concat ss"
  by (induction ss) (auto split: if_splits)

lemma conn_Read_Inl:
  "conn_Read cap c = (Inl e, c') \<Longrightarrow> \<not> is_closed c \<Longrightarrow>
     e = EOF \<and> concat (incoming c) = [] \<and> incoming c' = []"
  by (auto simp: conn_Read_def split: if_splits option.splits dest!: next_chunk_None)

lemma conn_Read_Inr:
  "conn_Read cap c = (Inr d, c') \<Longrightarrow> 0 < cap \<Longrightarrow>
     d \<noteq> [] \<and> length d \<le> cap \<and> d @ concat (incoming c') = concat (incoming c)"
  by (auto simp: conn_Read_def split: if_splits option.splits dest: next_chunk_Some)

lemma conn_Read_keeps:
  "written (snd (conn_Read cap c)) = written c"
  "wbudget (snd (conn_Read cap c)) = wbudget c"
  "is_closed (snd (conn_Read cap c)) = is_closed c"
  by (auto simp: conn_Read_def split: option.splits)

lemma Read_outside: "outside (snd (Read n c)) = outside c"
  by (simp add: Read_def outside_def case_prod_unfold conn_Read_keeps split: sum.splits)

lemma Read_Inl:
  assumes "Read n c = (Inl e, c')" "\<not> is_closed (Conn c)"
  shows "e = EOF \<and> unread c = [] \<and> unread c' = []"
  using assms
  by (auto simp: Read_def unread_def split: if_splits prod.splits sum.splits
      dest!: conn_Read_Inl)

lemma Read_Inr:
  assumes "Read n c = (Inr d, c')" "0 < n"
  shows "d \<noteq> [] \<and> length d \<le> n \<and> d @ unread c' = unread c"
proof (cases "rbuf c = []")
  case False
  with assms show ?thesis
    by (auto simp: Read_def unread_def)
next
  case True
  show ?thesis
  proof (cases "defaultBufSize \<le> n")
    case big: True
    with True assms show ?thesis
      by (auto simp: Read_def unread_def split: prod.splits dest!: conn_Read_Inr)
  next
    case small: False
    from True small assms obtain d0 nc where
      rd: "conn_Read defaultBufSize (Conn c) = (Inr d0, nc)"
      and d: "d = take n d0" and c': "c' = c\<lparr>Conn := nc, rbuf := drop n d0\<rparr>"
      by (auto simp: Read_def split: prod.splits sum.splits)
    from conn_Read_Inr [OF rd] have "d0 \<noteq> []" "d0 @ concat (incoming nc) = concat (incoming (Conn c))"
      by (simp_all add: defaultBufSize_def)
    then show ?thesis
      using assms(2) True d c'
      by (auto simp: unread_def simp flip: append_assoc)
  qed
qed


lemma ReadAtLeast_outside: "outside (snd (ReadAtLeast m acc c)) = outside c"
proof (induction m acc c rule: ReadAtLeast.induct)
  case (1 m acc c)
  show ?case
  proof (cases "length acc < m")
    case False
    then show ?thesis by (simp add: ReadAtLeast.simps)
  next
    case True
    obtain res c' where rd: "Read (m - length acc) c = (res, c')"
      by (cases "Read (m - length acc) c")
    have c': "outside c' = outside c"
      using Read_outside [of "m - length acc" c] rd by simp
    show ?thesis
    proof (cases res)
      case (Inl e)
      with True rd c' show ?thesis by (simp add: ReadAtLeast.simps)
    next
      case (Inr d)
      with "1.IH" [OF True rd [symmetric] Inr] True rd c' show ?thesis
        by (simp add: ReadAtLeast.simps)
    qed
  qed
qed

lemma ReadAtLeast_spec:
  assumes "\<not> is_closed (Conn c)" "length acc \<le> m"
  shows "fst (ReadAtLeast m acc c) =
           (if m - length acc \<le> length (unread c)
            then Inr (acc @ take (m - length acc) (unread c))
            else Inl (if acc = [] \<and> unread c = [] then EOF else ErrUnexpectedEOF)) \<and>
         unread (snd (ReadAtLeast m acc c)) = drop (m - length acc) (unread c)"
  using assms
proof (induction m acc c rule: ReadAtLeast.induct)
  case (1 m acc c)
  show ?case
  proof (cases "length acc < m")
    case False
    with "1.prems" show ?thesis by (simp add: ReadAtLeast.simps)
  next
    case True
    obtain res c' where rd: "Read (m - length acc) c = (res, c')"
      by (cases "Read (m - length acc) c")
    show ?thesis
    proof (cases res)
      case (Inl e)
      from Read_Inl [OF rd [unfolded Inl] "1.prems"(1)]
      have "e = EOF" "unread c = []" "unread c' = []" by simp_all
      with True rd Inl show ?thesis by (simp add: ReadAtLeast.simps)
    next
      case (Inr d)
      from Read_Inr [OF rd [unfolded Inr]] True
      have d: "d \<noteq> []" "length d \<le> m - length acc" "d @ unread c' = unread c" by simp_all
      have open': "\<not> is_closed (Conn c')"
        using Read_outside [of "m - length acc" c] rd "1.prems"(1) by (simp add: outside_def)
      have len: "length (acc @ d) \<le> m" using d(2) True by simp
      have eq: "ReadAtLeast m acc c = ReadAtLeast m (acc @ d) c'"
        using True rd Inr by (subst ReadAtLeast.simps) simp
      have u: "unread c = d @ unread c'" using d(3) by simp
      show ?thesis
        unfolding eq using "1.IH" [OF True rd [symmetric] Inr open' len] d(1,2) True
        by (auto simp: u)
    qed
  qed
qed


lemma accepts_open: "accepts k c \<Longrightarrow> \<not> is_closed (Conn c)"
  by (simp add: accepts_def)

lemma ReadFull_result:
  assumes "\<not> is_closed (Conn c)" "n \<le> length buf"
  shows "fst (ReadFull buf n c) =
           (if n \<le> length (unread c) then Inr (take n (unread c) @ drop n buf)
            else Inl (if unread c = [] then EOF else ErrUnexpectedEOF))"
  using ReadAtLeast_spec [OF assms(1), of "[]" n] assms(2)
  by (auto simp: ReadFull_def case_prod_unfold split: sum.splits)

lemma ReadFull_unread:
  assumes "\<not> is_closed (Conn c)" "n \<le> length buf"
  shows "unread (snd (ReadFull buf n c)) = drop n (unread c)"
  using ReadAtLeast_spec [OF assms(1), of "[]" n] assms(2)
  by (auto simp: ReadFull_def case_prod_unfold split: sum.splits)

lemma ReadFull_outside: "outside (snd (ReadFull buf n c)) = outside c"
  using ReadAtLeast_outside [of n "[]" c]
  by (auto simp: ReadFull_def case_prod_unfold split: sum.splits)

lemma ReadFull_keeps:
  "written (Conn (snd (ReadFull buf n c))) = written (Conn c)"
  "wbudget (Conn (snd (ReadFull buf n c))) = wbudget (Conn c)"
  "is_closed (Conn (snd (ReadFull buf n c))) = is_closed (Conn c)"
  using ReadFull_outside [of buf n c] by (simp_all add: outside_def)

lemma ReadFull_accepts: "accepts k (snd (ReadFull buf n c)) = accepts k c"
  by (simp add: accepts_def ReadFull_keeps)

lemma accepts_mono: "accepts k c \<Longrightarrow> j \<le> k \<Longrightarrow> accepts j c"
  by (auto simp: accepts_def split: option.splits)

lemma writeAll_result:
  "fst (writeAll p c) =
     (if accepts 1 c then Inr ()
      else Inl (if is_closed (Conn c) then ErrNetClosed else ErrBrokenPipe))"
  by (auto simp: accepts_def writeAll_def Write_def conn_Write_def
      split: option.splits nat.splits)

lemma writeAll_written:
  "accepts 1 c \<Longrightarrow> written (Conn (snd (writeAll p c))) = written (Conn c) @ [p]"
  by (auto simp: accepts_def writeAll_def Write_def conn_Write_def
      split: option.splits nat.splits)

lemma writeAll_accepts:
  "accepts 1 c \<Longrightarrow> accepts k (snd (writeAll p c)) = accepts (Suc k) c"
  by (auto simp: accepts_def writeAll_def Write_def conn_Write_def
      split: option.splits nat.splits)

lemma writeAll_unread: "unread (snd (writeAll p c)) = unread c"
  by (auto simp: unread_def writeAll_def Write_def conn_Write_def
      split: option.splits nat.splits)

lemma writeAll_closed: "is_closed (Conn (snd (writeAll p c))) = is_closed (Conn c)"
  by (auto simp: writeAll_def Write_def conn_Write_def split: option.splits nat.splits)

lemma andThen_proj:
  "andThen m f c = (case fst (m c) of Inl e \<Rightarrow> (Inl e, snd (m c)) | Inr x \<Rightarrow> f x (snd (m c)))"
  by (simp add: andThen_def case_prod_unfold split: sum.splits)

lemma wrapf_fst:
  "fst (wrapf msg m c) =
     (case fst (m c) of Inl e \<Rightarrow> Inl (if is_panic e then e else Wrapf msg e) | Inr x \<Rightarrow> Inr x)"
  by (simp add: wrapf_def case_prod_unfold split: sum.splits)

lemma wrapf_snd: "snd (wrapf msg m c) = snd (m c)"
  by (simp add: wrapf_def case_prod_unfold split: sum.splits)

lemmas hs_rules =
  andThen_proj wrapf_fst wrapf_snd at_def failWith_def
  ReadFull_result ReadFull_unread ReadFull_keeps ReadFull_accepts
  writeAll_result writeAll_written writeAll_accepts writeAll_unread writeAll_closed

lemma unat_byte_le: "unat (b :: byte) \<le> 255"
  using unsigned_less [of b, where ?'a = nat] by simp

lemma unat_of_nat_len: "n \<le> 255 \<Longrightarrow> unat (of_nat n :: byte) = n"
  by (simp add: unat_of_nat)

lemma accepts_two:
  assumes "accepts 2 c"
  shows "\<not> is_closed (Conn c)" "accepts (Suc 0) c" "accepts (Suc (Suc 0)) c"
  using assms accepts_mono [of 2 c 1] by (simp_all add: numeral_2_eq_2 accepts_open)

lemma handshake_proj:
  "fst (handleSocks5Handshake c) =
     (case fst (handshakeBody (replicate 258 0) c) of Inl e \<Rightarrow> Some e | Inr u \<Rightarrow> None)"
  "snd (handleSocks5Handshake c) = snd (handshakeBody (replicate 258 0) c)"
  by (simp_all add: handleSocks5Handshake_def case_prod_unfold split: sum.splits)

section \<open>No step of the handshake panics\<close>

lemma Read_error_kind: "Read n c = (Inl e, c') \<Longrightarrow> e = EOF \<or> e = ErrNetClosed"
  by (auto simp: Read_def conn_Read_def split: if_splits prod.splits sum.splits option.splits)

lemma ReadAtLeast_no_panic:
  "fst (ReadAtLeast m acc c) = Inl e \<Longrightarrow> \<not> is_panic e"
proof (induction m acc c rule: ReadAtLeast.induct)
  case (1 m acc c)
  show ?case
  proof (cases "length acc < m")
    case False
    with "1.prems" show ?thesis by (simp add: ReadAtLeast.simps)
  next
    case True
    obtain res c' where rd: "Read (m - length acc) c = (res, c')"
      by (cases "Read (m - length acc) c")
    show ?thesis
    proof (cases res)
      case (Inl e')
      with Read_error_kind [of "m - length acc" c e' c'] rd True "1.prems" show ?thesis
        by (auto simp: ReadAtLeast.simps split: if_splits)
    next
      case (Inr d)
      with "1.IH" [OF True rd [symmetric] Inr] True rd "1.prems" show ?thesis
        by (simp add: ReadAtLeast.simps)
    qed
  qed
qed

lemma ReadAtLeast_length:
  "fst (ReadAtLeast m acc c) = Inr d \<Longrightarrow> length acc \<le> m \<Longrightarrow> length d = m"
proof (induction m acc c rule: ReadAtLeast.induct)
  case (1 m acc c)
  show ?case
  proof (cases "length acc < m")
    case False
    with "1.prems" show ?thesis by (simp add: ReadAtLeast.simps)
  next
    case True
    obtain res c' where rd: "Read (m - length acc) c = (res, c')"
      by (cases "Read (m - length acc) c")
    show ?thesis
    proof (cases res)
      case (Inl e')
      with rd True "1.prems" show ?thesis
        by (simp add: ReadAtLeast.simps)
    next
      case (Inr d')
      from Read_Inr [OF rd [unfolded Inr]] True have "length (acc @ d') \<le> m" by auto
      with "1.IH" [OF True rd [symmetric] Inr] True rd Inr "1.prems" show ?thesis
        by (simp add: ReadAtLeast.simps)
    qed
  qed
qed

lemma ReadFull_length:
  "fst (ReadFull buf n c) = Inr b \<Longrightarrow> length b = length buf"
  using ReadAtLeast_length [of n "[]" c]
  by (auto simp: ReadFull_def case_prod_unfold split: if_splits sum.splits)

lemma ReadFull_no_panic:
  "fst (ReadFull buf n c) = Inl e \<Longrightarrow> n \<le> length buf \<Longrightarrow> \<not> is_panic e"
  using ReadAtLeast_no_panic [of n "[]" c]
  by (auto simp: ReadFull_def case_prod_unfold split: if_splits sum.splits)

lemma writeAll_no_panic: "fst (writeAll p c) = Inl e \<Longrightarrow> \<not> is_panic e"
  by (auto simp: writeAll_result split: if_splits)

lemma ReadFull_panic:
  "fst (ReadFull buf n c) = Inl e \<Longrightarrow> is_panic e \<Longrightarrow> length buf < n"
  using ReadFull_no_panic [of buf n c e] by (cases "n \<le> length buf") auto

lemma byte_fits: "255 \<le> k \<Longrightarrow> \<not> k < unat (b :: byte)"
  using unat_byte_le [of b] by simp

lemma handshakeBody_no_panic:
  assumes "255 \<le> length buf0" "fst (handshakeBody buf0 c) = Inl e"
  shows "\<not> is_panic e"
  using assms
  unfolding handshakeBody_def andThen_proj wrapf_fst wrapf_snd at_def failWith_def
  by (auto split: sum.splits if_splits
      dest!: ReadFull_length ReadFull_panic writeAll_no_panic
      simp: byte_fits wrapf_fst wrapf_snd)


section \<open>Peeking and dispatching\<close>

lemma fill_until_spec:
  assumes "\<not> is_closed (Conn c)"
  shows "unread (snd (fill_until n c)) = unread c \<and>
         outside (snd (fill_until n c)) = outside c \<and>
         (min n defaultBufSize \<le> length (unread c) \<longrightarrow>
            fst (fill_until n c) = None \<and> min n defaultBufSize \<le> length (rbuf (snd (fill_until n c)))) \<and>
         (length (unread c) < min n defaultBufSize \<longrightarrow>
            fst (fill_until n c) = Some EOF \<and> rbuf (snd (fill_until n c)) = unread c) \<and>
         (\<exists>s. unread c = rbuf (snd (fill_until n c)) @ s)"
  using assms
proof (induction n c rule: fill_until.induct)
  case (1 n c)
  show ?case
  proof (cases "length (rbuf c) < n \<and> length (rbuf c) < defaultBufSize")
    case False
    then show ?thesis
      by (auto simp: fill_until.simps [of n c] unread_def)
  next
    case True
    obtain res nc where rd: "conn_Read (defaultBufSize - length (rbuf c)) (Conn c) = (res, nc)"
      by (cases "conn_Read (defaultBufSize - length (rbuf c)) (Conn c)")
    have keep: "written nc = written (Conn c)" "wbudget nc = wbudget (Conn c)"
      "is_closed nc = is_closed (Conn c)"
      using conn_Read_keeps [of "defaultBufSize - length (rbuf c)" "Conn c"] rd by simp_all
    show ?thesis
    proof (cases res)
      case (Inl e)
      from conn_Read_Inl [OF rd [unfolded Inl] "1.prems"]
      have e: "e = EOF" and z: "concat (incoming (Conn c)) = []" and nc: "incoming nc = []"
        by blast+
      have u0: "unread c = rbuf c"
        unfolding unread_def z by simp
      have u1: "unread (c\<lparr>Conn := nc\<rparr>) = rbuf c"
        unfolding unread_def by (simp add: nc)
      have o1: "outside (c\<lparr>Conn := nc\<rparr>) = outside c"
        using keep by (simp add: outside_def)
      have eq: "fill_until n c = (Some EOF, c\<lparr>Conn := nc\<rparr>)"
        using True rd Inl e by (subst fill_until.simps) simp
      show ?thesis
        unfolding eq using True by (auto simp add: u0 u1 o1)
    next
      case (Inr d)
      from conn_Read_Inr [OF rd [unfolded Inr]] True
      have d: "d \<noteq> []" "length d \<le> defaultBufSize - length (rbuf c)"
        "d @ concat (incoming nc) = concat (incoming (Conn c))" by simp_all
      let ?c' = "c\<lparr>Conn := nc, rbuf := rbuf c @ d\<rparr>"
      have eq: "fill_until n c = fill_until n ?c'"
        using True rd Inr d(1) by (subst fill_until.simps) simp
      have u: "unread ?c' = unread c"
        using d(3) by (simp add: unread_def)
      have o: "outside ?c' = outside c"
        using keep by (simp add: outside_def)
      have "\<not> is_closed (Conn ?c')" using keep "1.prems" by simp
      from "1.IH" [OF True rd [symmetric] Inr d(1) this] show ?thesis
        unfolding eq u o .
    qed
  qed
qed

lemma Peek_one:
  assumes "\<not> is_closed (Conn c)"
  shows "fst (Peek 1 c) = (case unread c of [] \<Rightarrow> ([], Some EOF) | b # bs \<Rightarrow> ([b], None)) \<and>
         unread (snd (Peek 1 c)) = unread c \<and> outside (snd (Peek 1 c)) = outside c"
proof -
  note f = fill_until_spec [OF assms, of 1]
  show ?thesis
  proof (cases "unread c")
    case Nil
    with f show ?thesis
      by (auto simp: Peek_def case_prod_unfold defaultBufSize_def)
  next
    case (Cons b bs)
    with f obtain s where "b # bs = rbuf (snd (fill_until 1 c)) @ s"
      "1 \<le> length (rbuf (snd (fill_until 1 c)))" "fst (fill_until 1 c) = None"
      by (auto simp: defaultBufSize_def)
    then have "take 1 (rbuf (snd (fill_until 1 c))) = [b]"
      by (cases "rbuf (snd (fill_until 1 c))") auto
    with f Cons show ?thesis
      by (auto simp: Peek_def case_prod_unfold defaultBufSize_def)
  qed
qed


lemma handleConnection_other:
  assumes "\<not> is_closed raw" "concat (incoming raw) = b # rest" "b \<noteq> 0x05"
  shows "\<exists>c'. handleConnection raw sel =
                 (case sel of SendConn \<Rightarrow> Delivered c' | ListenerClosed \<Rightarrow> Dropped (Close c')) \<and>
              unread c' = b # rest \<and> written (Conn c') = written raw \<and>
              \<not> is_closed (Conn c')"
proof -
  let ?c = "NewPeekConn raw"
  have op: "\<not> is_closed (Conn ?c)" and u: "unread ?c = b # rest"
    using assms by (simp_all add: NewPeekConn_def unread_def)
  from Peek_one [OF op] u
  have p: "fst (Peek 1 ?c) = ([b], None)" "unread (snd (Peek 1 ?c)) = b # rest"
    "outside (snd (Peek 1 ?c)) = outside ?c"
    by simp_all
  have "handleConnection raw sel =
          (case sel of SendConn \<Rightarrow> Delivered (snd (Peek 1 ?c))
                     | ListenerClosed \<Rightarrow> Dropped (Close (snd (Peek 1 ?c))))"
    using p(1) assms(3) by (cases sel) (simp_all add: handleConnection_def case_prod_unfold)
  moreover have "written (Conn (snd (Peek 1 ?c))) = written raw"
    "\<not> is_closed (Conn (snd (Peek 1 ?c)))"
    using p(3) assms(1) by (simp_all add: outside_def NewPeekConn_def)
  ultimately show ?thesis using p(2) by blast
qed


section \<open>The loader and the handler\<close>

lemma buildMap_Nil:
  "buildMap m rs = [] \<longleftrightarrow> m = [] \<and> (\<forall>r \<in> set rs. ShortURL r = [] \<or> LongURL r = [])"
  by (induction rs arbitrary: m) auto

lemma Split_Cons: "\<exists>ps. Split s sep = takeWhile (\<lambda>c. c \<noteq> sep) s # ps"
  by (induction s) (auto split: list.splits)

lemma handleRequest_cases:
  assumes "Path (req_URL r) \<noteq> ''/check''" "Path (req_URL r) \<noteq> ''/health''"
    "Path (req_URL r) \<noteq> ''/proxy.pac''"
  shows "fst (handleRequest url_Parse url_String ps r) =
     (if req_Host r = [] then HttpError ''Host header is required'' 400
      else case map_of (shortLinkMap ps) (requestedHostOf (req_Host r)) of
             None \<Rightarrow> HttpError (''No short link mapping found for '' @ [CHR 0x22]
                               @ requestedHostOf (req_Host r) @ [CHR 0x22]) 404
           | Some targetURL \<Rightarrow>
               (case url_Parse targetURL of
                  Inl err \<Rightarrow> HttpError ''Internal configuration error'' 500
                | Inr u \<Rightarrow>
                    HttpRedirect (url_String (u\<lparr>Path := joinedPath (Path u) (Path (req_URL r)),
                                                 RawQuery := RawQuery (req_URL r),
                                                 Fragment := Fragment (req_URL r)\<rparr>)) 302))"
proof -
  obtain ps' where sp: "Split (req_Host r) CHR '':'' = takeWhile (\<lambda>c. c \<noteq> CHR '':'') (req_Host r) # ps'"
    using Split_Cons by blast
  show ?thesis
    using assms
    by (auto simp add: handleRequest_def Let_def sp requestedHostOf_def joinedPath_def
        split: option.splits sum.splits intro!: arg_cong [where f = url_String] url.equality)
qed

section \<open>Slashes in the joined path\<close>

lemma ReplaceAll_slashes_head:
  "ReplaceAll_slashes s \<noteq> [] \<Longrightarrow> hd (ReplaceAll_slashes s) = hd s"
  by (induction s rule: ReplaceAll_slashes.induct) auto


lemma ReplaceAll_slashes_Nil: "ReplaceAll_slashes s = [] \<longleftrightarrow> s = []"
  by (induction s rule: ReplaceAll_slashes.induct) auto


lemma double_slash_Cons:
  "double_slash (a # s) = (s \<noteq> [] \<and> ((a = CHR ''/'' \<and> hd s = CHR ''/'') \<or> double_slash s))"
  by (cases s) auto


lemma triple_slash_Cons2:
  "triple_slash (a # b # s) =
     (s \<noteq> [] \<and> ((a = CHR ''/'' \<and> b = CHR ''/'' \<and> hd s = CHR ''/'') \<or> triple_slash (b # s)))"
  by (cases s) auto


lemma ReplaceAll_slashes_single:
  "\<not> triple_slash s \<Longrightarrow> \<not> double_slash (ReplaceAll_slashes s)"
proof (induction s rule: ReplaceAll_slashes.induct)
  case (1 a b s)
  show ?case
  proof (cases "a = CHR ''/'' \<and> b = CHR ''/''")
    case True
    with "1.prems" have s: "s = [] \<or> hd s \<noteq> CHR ''/''" and t: "\<not> triple_slash s"
      by (cases s; cases "tl s"; auto)+
    from "1.IH"(1) [OF True t] s True show ?thesis
      using ReplaceAll_slashes_head [of s] ReplaceAll_slashes_Nil [of s]
      by (auto simp: double_slash_Cons)
  next
    case False
    from "1.prems" have t: "\<not> triple_slash (b # s)"
      by (cases s) auto
    from "1.IH"(2) [OF False t] False show ?thesis
      using ReplaceAll_slashes_head [of "b # s"] ReplaceAll_slashes_Nil [of "b # s"]
      by (auto simp: double_slash_Cons)
  qed
qed simp_all


lemma ReplaceAll_slashes_id: "\<not> double_slash s \<Longrightarrow> ReplaceAll_slashes s = s"
  by (induction s rule: ReplaceAll_slashes.induct) auto


lemma triple_slash_iff: "triple_slash s \<longleftrightarrow> (\<exists>xs ys. s = xs @ ''///'' @ ys)"
proof
  show "triple_slash s \<Longrightarrow> \<exists>xs ys. s = xs @ ''///'' @ ys"
  proof (induction s rule: triple_slash.induct)
    case (1 a b c s)
    show ?case
    proof (cases "a = CHR ''/'' \<and> b = CHR ''/'' \<and> c = CHR ''/''")
      case True
      then have "a # b # c # s = [] @ ''///'' @ s" by simp
      then show ?thesis by blast
    next
      case False
      with "1.prems" have "triple_slash (b # c # s)" by simp
      from "1.IH" [OF this] obtain xs ys where "b # c # s = xs @ ''///'' @ ys" by blast
      then have "a # b # c # s = (a # xs) @ ''///'' @ ys" by simp
      then show ?thesis by blast
    qed
  qed simp_all
next
  assume "\<exists>xs ys. s = xs @ ''///'' @ ys"
  then obtain xs ys where s: "s = xs @ ''///'' @ ys" by blast
  show "triple_slash s"
    unfolding s
  proof (induction xs)
    case Nil
    show ?case by simp
  next
    case (Cons a xs)
    then show ?case
      by (cases xs; cases "tl xs") auto
  qed
qed


lemma triple_slash_append:
  assumes "triple_slash p \<or> triple_slash q"
  shows "triple_slash (p @ q)"
proof -
  from assms consider (left) xs ys where "p = xs @ ''///'' @ ys"
    | (right) xs ys where "q = xs @ ''///'' @ ys"
    unfolding triple_slash_iff by blast
  then show ?thesis
  proof cases
    case left
    then have "p @ q = xs @ ''///'' @ (ys @ q)" by simp
    then show ?thesis unfolding triple_slash_iff by blast
  next
    case right
    then have "p @ q = (p @ xs) @ ''///'' @ ys" by simp
    then show ?thesis unfolding triple_slash_iff by blast
  qed
qed

lemma TrimRight_prefix: "\<exists>q. s = TrimRight s ch @ q"
proof -
  have "rev (dropWhile (\<lambda>c. c = ch) (rev s)) @ rev (takeWhile (\<lambda>c. c = ch) (rev s)) = s"
    by (simp only: rev_append [symmetric] takeWhile_dropWhile_id rev_rev_ident)
  then show ?thesis
    unfolding TrimRight_def by (intro exI [of _ "rev (takeWhile (\<lambda>c. c = ch) (rev s))"]) simp
qed

lemma TrimLeft_suffix: "\<exists>p. s = p @ TrimLeft s ch"
  unfolding TrimLeft_def by (rule exI [of _ "takeWhile (\<lambda>c. c = ch) s"]) simp

lemma TrimRight_last: "TrimRight s ch = [] \<or> last (TrimRight s ch) \<noteq> ch"
proof (cases "dropWhile (\<lambda>c. c = ch) (rev s) = []")
  case True
  then show ?thesis by (simp add: TrimRight_def)
next
  case False
  from hd_dropWhile [OF False] have "hd (dropWhile (\<lambda>c. c = ch) (rev s)) \<noteq> ch" .
  then show ?thesis by (simp add: TrimRight_def last_rev)
qed

lemma TrimLeft_head: "TrimLeft s ch = [] \<or> hd (TrimLeft s ch) \<noteq> ch"
proof (cases "dropWhile (\<lambda>c. c = ch) s = []")
  case True
  then show ?thesis by (simp add: TrimLeft_def)
next
  case False
  from hd_dropWhile [OF False] show ?thesis by (simp add: TrimLeft_def)
qed

lemma triple_slash_join:
  assumes "\<not> triple_slash x" "\<not> triple_slash y" "x = [] \<or> last x \<noteq> CHR ''/''"
    "y = [] \<or> hd y \<noteq> CHR ''/''"
  shows "\<not> triple_slash (x @ CHR ''/'' # y)"
  using assms
proof (induction x rule: triple_slash.induct)
  case (1 a b c s)
  then show ?case by (auto simp: triple_slash_Cons2 split: if_splits)
qed (cases y; cases "tl y"; auto)+


lemma double_slash_join:
  assumes "\<not> double_slash x" "\<not> double_slash y" "x = [] \<or> last x \<noteq> CHR ''/''"
    "y = [] \<or> hd y \<noteq> CHR ''/''"
  shows "\<not> double_slash (x @ CHR ''/'' # y)"
  using assms
proof (induction x rule: double_slash.induct)
  case (1 a b s)
  then show ?case by (auto simp: double_slash_Cons split: if_splits)
qed (cases y; auto)+

lemma joinedPath_single:
  assumes "\<not> triple_slash base" "\<not> triple_slash reqPath"
  shows "\<not> double_slash (joinedPath base reqPath)"
proof -
  obtain q where q: "base = TrimRight base CHR ''/'' @ q" using TrimRight_prefix by blast
  obtain p where p: "reqPath = p @ TrimLeft reqPath CHR ''/''" using TrimLeft_suffix by blast
  have x: "\<not> triple_slash (TrimRight base CHR ''/'')"
    using assms(1) triple_slash_append [of "TrimRight base CHR ''/''" q] q by auto
  have y: "\<not> triple_slash (TrimLeft reqPath CHR ''/'')"
    using assms(2) triple_slash_append [of p "TrimLeft reqPath CHR ''/''"] p by auto
  have "\<not> triple_slash (TrimRight base CHR ''/'' @ CHR ''/'' # TrimLeft reqPath CHR ''/'')"
    by (rule triple_slash_join [OF x y TrimRight_last TrimLeft_head])
  then show ?thesis
    unfolding joinedPath_def by (simp add: ReplaceAll_slashes_single)
qed



lemma joinedPath_plain:
  assumes "\<not> double_slash (TrimRight base CHR ''/'')" "\<not> double_slash (TrimLeft reqPath CHR ''/'')"
  shows "joinedPath base reqPath = TrimRight base CHR ''/'' @ ''/'' @ TrimLeft reqPath CHR ''/''"
proof -
  have "\<not> double_slash (TrimRight base CHR ''/'' @ CHR ''/'' # TrimLeft reqPath CHR ''/'')"
    by (rule double_slash_join [OF assms TrimRight_last TrimLeft_head])
  then show ?thesis
    unfolding joinedPath_def by (simp add: ReplaceAll_slashes_id)
qed

section \<open>The scenario, evaluated\<close>

lemma ToLower_idev: "ToLower ''idev'' = ''idev''" "ToLower ''IDEV'' = ''idev''"
  by code_simp+

lemma scenario_server_eq:
  "scenario_server proto =
     \<lparr>config = scenario_config,
      shortLinkMap = [(''idev'', proto @ ''://internal.example.com/app'')],
      lastSyncTime = 7, requestCount = 0\<rparr>"
  by (simp add: scenario_server_def loadMappingsFromFile_def scenario_doc_def
      scenario_record_def NewProxyServer_def ToLower_idev)

lemma parse_scenario:
  "plain_Parse ''http://internal.example.com/app'' =
     Inr (emptyURL\<lparr>Scheme := ''http'', Host := ''internal.example.com'', Path := ''/app''\<rparr>)"
  by (simp add: plain_Parse_def Cut_def getScheme_def isLetter_def isSchemeSign_def Let_def
      ToLower_def toLowerChar_def emptyURL_def)

lemma parse_no_scheme: "plain_Parse ''://internal.example.com/app'' = Inl (OtherError ''missing protocol scheme'')"
  by (simp add: plain_Parse_def Cut_def getScheme_def isLetter_def isSchemeSign_def Let_def)

lemma requestedHostOf_scenario:
  "requestedHostOf ''idev'' = ''idev''" "requestedHostOf ''IDEV:8080'' = ''idev''"
  "requestedHostOf ''unknown'' = ''unknown''"
  by (simp_all add: requestedHostOf_def ToLower_idev) (simp add: ToLower_def toLowerChar_def)

text \<open>
  One pass of \<^verbatim>\<open>strings.ReplaceAll\<close> leaves a doubled slash where the request path
  holds three in a row.
\<close>

lemma three_slashes_leave_two:
  "fst (handleRequest plain_Parse plain_String (scenario_server ''http'')
          (scenario_request ''idev'' ''/a///b'' [])) =
     HttpRedirect ''http://internal.example.com/app/a//b'' 302"
  by (simp add: handleRequest_def scenario_server_eq scenario_request_def emptyURL_def Let_def
      ToLower_idev parse_scenario plain_String_def TrimRight_def TrimLeft_def Cut_def)

section \<open>The claims about the SOCKS5 handshake\<close>

text \<open>
  Claim C1.  On an open connection whose peer takes the two writes, for every stream
  that starts with a greeting (version 5, up to 255 methods) followed by a CONNECT
  request (version 5, command 1, reserved 0, an IPv4, domain-name or IPv6 address, two
  port bytes), \<open>handleSocks5Handshake\<close> returns no error; its writes are the two-byte
  method selection and then the fixed ten-byte reply, verbatim; and the bytes left to
  read are exactly those the client sent after the port.
\<close>

theorem C1_handshake_completes:
  assumes acc: "accepts 2 c"
    and m: "length methods \<le> 255" and a: "addr_ok addr"
    and u: "unread c = greeting_bytes methods @ connect_bytes 0x05 0x00 addr p1 p2 @ rest"
  shows "fst (handleSocks5Handshake c) = None \<and>
         written (Conn (snd (handleSocks5Handshake c))) =
           written (Conn c) @ [[0x05, 0x00], [0x05, 0x00, 0x00, 0x01, 0x00, 0x00, 0x00, 0x00, 0x00, 0x00]] \<and>
         unread (snd (handleSocks5Handshake c)) = rest \<and>
         \<not> is_closed (Conn (snd (handleSocks5Handshake c)))"
proof -
  note acc' = accepts_two [OF acc]
  show ?thesis
  proof (cases addr)
    case (IPv4 a1 a2 a3 a4)
    then show ?thesis
      using acc' m u
      by (simp add: handshake_proj handshakeBody_def hs_rules greeting_bytes_def
          connect_bytes_def socks5Reply_def unat_of_nat_len)
  next
    case (DomainName n)
    then show ?thesis
      using acc' m u a
      by (simp add: handshake_proj handshakeBody_def hs_rules greeting_bytes_def
          connect_bytes_def socks5Reply_def unat_of_nat_len)
  next
    case (IPv6 bs)
    then show ?thesis
      using acc' m u a
      by (simp add: handshake_proj handshakeBody_def hs_rules greeting_bytes_def
          connect_bytes_def socks5Reply_def unat_of_nat_len)
  qed
qed


theorem C1_handshake_completes_witness:
  "accepts 2 conn_domain \<and> addr_ok (DomainName [7, 8]) \<and>
   unread conn_domain =
     greeting_bytes [0] @ connect_bytes 5 0 (DomainName [7, 8]) 0 80 @ [71, 69, 84] \<and>
   fst (handleSocks5Handshake conn_domain) = None \<and>
   written (Conn (snd (handleSocks5Handshake conn_domain))) =
     [[5, 0], [5, 0, 0, 1, 0, 0, 0, 0, 0, 0]] \<and>
   unread (snd (handleSocks5Handshake conn_domain)) = [71, 69, 84]"
proof -
  have h: "accepts 2 conn_domain" "length [0 :: byte] \<le> 255" "addr_ok (DomainName [7, 8])"
    "unread conn_domain =
       greeting_bytes [0] @ connect_bytes 5 0 (DomainName [7, 8]) 0 80 @ [71, 69, 84]"
    by (simp_all add: conn_domain_def accepts_def unread_def greeting_bytes_def
        connect_bytes_def)
  from C1_handshake_completes [OF h] h show ?thesis
    by (simp add: conn_domain_def)
qed

text \<open>
  Claim C7.  After the greeting, with the request header \<open>[ver, cmd, rsv, atyp]\<close>
  read and \<open>tail\<close> the bytes that follow it: a command other than 1 fails the
  handshake and reads nothing more; with command 1, address type 1 reads 4 bytes, type
  3 reads one length byte \<open>l\<close> and then \<open>unat l\<close> bytes, type 4 reads 16 bytes, each
  followed by a read of 2 port bytes, and any other type fails and reads nothing more.
  A read of \<open>n\<close> bytes is recognised by its outcome on every stream (\<open>readOutcome\<close>:
  it fails exactly when fewer than \<open>n\<close> bytes are left) and by the read position
  afterwards.
\<close>

theorem C7_request_phase:
  assumes acc: "accepts 2 c" and m: "length methods \<le> 255"
    and u: "unread c = greeting_bytes methods @ [ver, cmd, rsv, atyp] @ tail"
  shows
    "(cmd \<noteq> 1 \<longrightarrow>
        fst (handleSocks5Handshake c) = Some (UnsupportedCommand cmd) \<and>
        unread (snd (handleSocks5Handshake c)) = tail) \<and>
     (cmd = 1 \<and> atyp = 1 \<longrightarrow>
        fst (handleSocks5Handshake c) =
          (case readOutcome 4 tail of Some e \<Rightarrow> Some e | None \<Rightarrow> readOutcome 2 (drop 4 tail)) \<and>
        unread (snd (handleSocks5Handshake c)) = drop 2 (drop 4 tail)) \<and>
     (cmd = 1 \<and> atyp = 3 \<longrightarrow>
        (case tail of
           [] \<Rightarrow> fst (handleSocks5Handshake c) = Some EOF \<and>
                 unread (snd (handleSocks5Handshake c)) = []
         | l # t \<Rightarrow>
             fst (handleSocks5Handshake c) =
               (case readOutcome (unat l) t of
                  Some e \<Rightarrow> Some e
                | None \<Rightarrow> readOutcome 2 (drop (unat l) t)) \<and>
             unread (snd (handleSocks5Handshake c)) = drop 2 (drop (unat l) t))) \<and>
     (cmd = 1 \<and> atyp = 4 \<longrightarrow>
        fst (handleSocks5Handshake c) =
          (case readOutcome 16 tail of Some e \<Rightarrow> Some e | None \<Rightarrow> readOutcome 2 (drop 16 tail)) \<and>
        unread (snd (handleSocks5Handshake c)) = drop 2 (drop 16 tail)) \<and>
     (cmd = 1 \<and> atyp \<noteq> 1 \<and> atyp \<noteq> 3 \<and> atyp \<noteq> 4 \<longrightarrow>
        fst (handleSocks5Handshake c) = Some (UnsupportedAddressType atyp) \<and>
        unread (snd (handleSocks5Handshake c)) = tail)"
proof -
  note acc' = accepts_two [OF acc]
  have wrong_cmd: "fst (handleSocks5Handshake c) = Some (UnsupportedCommand cmd) \<and>
      unread (snd (handleSocks5Handshake c)) = tail" if "cmd \<noteq> 1"
    using that acc' m u
    by (simp add: handshake_proj handshakeBody_def hs_rules greeting_bytes_def unat_of_nat_len)
  have ipv4: "fst (handleSocks5Handshake c) =
          (case readOutcome 4 tail of Some e \<Rightarrow> Some e | None \<Rightarrow> readOutcome 2 (drop 4 tail)) \<and>
        unread (snd (handleSocks5Handshake c)) = drop 2 (drop 4 tail)" if "cmd = 1" "atyp = 1"
    using that acc' m u
    by (simp add: handshake_proj handshakeBody_def hs_rules greeting_bytes_def unat_of_nat_len
        readOutcome_def)
  have ipv6: "fst (handleSocks5Handshake c) =
          (case readOutcome 16 tail of Some e \<Rightarrow> Some e | None \<Rightarrow> readOutcome 2 (drop 16 tail)) \<and>
        unread (snd (handleSocks5Handshake c)) = drop 2 (drop 16 tail)" if "cmd = 1" "atyp = 4"
    using that acc' m u
    by (simp add: handshake_proj handshakeBody_def hs_rules greeting_bytes_def unat_of_nat_len
        readOutcome_def)
  have other: "fst (handleSocks5Handshake c) = Some (UnsupportedAddressType atyp) \<and>
        unread (snd (handleSocks5Handshake c)) = tail"
    if "cmd = 1" "atyp \<noteq> 1" "atyp \<noteq> 3" "atyp \<noteq> 4"
    using that acc' m u
    by (simp add: handshake_proj handshakeBody_def hs_rules greeting_bytes_def unat_of_nat_len)
  have domain: "(case tail of
           [] \<Rightarrow> fst (handleSocks5Handshake c) = Some EOF \<and>
                 unread (snd (handleSocks5Handshake c)) = []
         | l # t \<Rightarrow>
             fst (handleSocks5Handshake c) =
               (case readOutcome (unat l) t of
                  Some e \<Rightarrow> Some e
                | None \<Rightarrow> readOutcome 2 (drop (unat l) t)) \<and>
             unread (snd (handleSocks5Handshake c)) = drop 2 (drop (unat l) t))"
    if "cmd = 1" "atyp = 3"
  proof (cases tail)
    case Nil
    with that acc' m u show ?thesis
      by (simp add: handshake_proj handshakeBody_def hs_rules greeting_bytes_def unat_of_nat_len)
  next
    case (Cons l t)
    have "unat l \<le> 258" using unat_byte_le [of l] by simp
    with Cons that acc' m u show ?thesis
      by (simp add: handshake_proj handshakeBody_def hs_rules greeting_bytes_def unat_of_nat_len
          readOutcome_def)
  qed
  from wrong_cmd ipv4 domain ipv6 other show ?thesis by blast
qed


theorem C7_request_phase_witness:
  "accepts 2 conn_domain \<and>
   unread conn_domain = greeting_bytes [0] @ [5, 1, 0, 3] @ [2, 7, 8, 0, 80, 71, 69, 84] \<and>
   fst (handleSocks5Handshake conn_domain) = None \<and>
   unread (snd (handleSocks5Handshake conn_domain)) = [71, 69, 84]"
proof -
  have h: "accepts 2 conn_domain" "length [0 :: byte] \<le> 255"
    "unread conn_domain = greeting_bytes [0] @ [5, 1, 0, 3] @ [2, 7, 8, 0, 80, 71, 69, 84]"
    by (simp_all add: conn_domain_def accepts_def unread_def greeting_bytes_def)
  from C7_request_phase [OF h] h(1,3) show ?thesis
    by (simp add: readOutcome_def)
qed

text \<open>
  Claim C9.  The first byte of the request header is never looked at: on a stream
  \<open>[g, n]\<close>, \<open>n\<close> methods, \<open>[ver, cmd, rsv, atyp]\<close> and enough further bytes for the
  address and the port, the handshake succeeds exactly when the greeting's version
  \<open>g\<close> is 5, the command is 1 and the address type is 1, 3 or 4, whatever \<open>ver\<close>
  (and \<open>rsv\<close>) are.
\<close>

theorem C9_request_version_unchecked:
  assumes acc: "accepts 2 c" and m: "length methods = unat n"
    and u: "unread c = [g, n] @ methods @ [ver, cmd, rsv, atyp] @ tail"
    and e: "enough_for atyp tail"
  shows "(fst (handleSocks5Handshake c) = None) =
           (g = 5 \<and> cmd = 1 \<and> (atyp = 1 \<or> atyp = 3 \<or> atyp = 4))"
proof -
  note acc' = accepts_two [OF acc]
  note n = unat_byte_le [of n]
  consider (badver) "g \<noteq> 5" | (badcmd) "g = 5" "cmd \<noteq> 1"
    | (ipv4) "g = 5" "cmd = 1" "atyp = 1" | (dom) "g = 5" "cmd = 1" "atyp = 3"
    | (ipv6) "g = 5" "cmd = 1" "atyp = 4"
    | (other) "g = 5" "cmd = 1" "atyp \<noteq> 1" "atyp \<noteq> 3" "atyp \<noteq> 4"
    by blast
  then show ?thesis
  proof cases
    case badver
    with acc' m [symmetric] u n show ?thesis
      by (simp add: handshake_proj handshakeBody_def hs_rules)
  next
    case badcmd
    with acc' m [symmetric] u n show ?thesis
      by (simp add: handshake_proj handshakeBody_def hs_rules)
  next
    case ipv4
    with acc' m [symmetric] u n e show ?thesis
      by (simp add: handshake_proj handshakeBody_def hs_rules enough_for_def)
  next
    case dom
    with e obtain l t where t: "tail = l # t" "unat l + 2 \<le> length t"
      by (auto simp: enough_for_def split: list.splits)
    have "unat l \<le> 258" using unat_byte_le [of l] by simp
    with dom t acc' m [symmetric] u n show ?thesis
      by (simp add: handshake_proj handshakeBody_def hs_rules)
  next
    case ipv6
    with acc' m [symmetric] u n e show ?thesis
      by (simp add: handshake_proj handshakeBody_def hs_rules enough_for_def)
  next
    case other
    with acc' m [symmetric] u n show ?thesis
      by (simp add: handshake_proj handshakeBody_def hs_rules)
  qed
qed

theorem C9_request_version_unchecked_witness:
  "accepts 2 conn_version9 \<and>
   unread conn_version9 = [5, 1] @ [0] @ [9, 1, 0, 1] @ [10, 0, 0, 1, 0, 80] \<and>
   enough_for 1 [10, 0, 0, 1, 0, 80] \<and>
   fst (handleSocks5Handshake conn_version9) = None"
proof -
  have h: "accepts 2 conn_version9" "length [0 :: byte] = unat (1 :: byte)"
    "unread conn_version9 = [5, 1] @ [0] @ [9, 1, 0, 1] @ [10, 0, 0, 1, 0, 80]"
    "enough_for 1 [10, 0, 0, 1, 0, 80]"
    by (simp_all add: conn_version9_def accepts_def unread_def enough_for_def)
  from C9_request_version_unchecked [OF h] h(1,3,4) show ?thesis
    by simp
qed

text \<open>
  Claim C10.  No slice expression and no index of \<open>handleSocks5Handshake\<close> is out of
  range, whatever the connection holds: the handshake never ends in a panic with its
  258-byte buffer, and neither would it with any buffer of 255 bytes or more, so no
  read asks for more than 255 bytes.
\<close>

theorem C10_buffer_in_bounds:
  "(\<forall>e. fst (handleSocks5Handshake c) = Some e \<longrightarrow> \<not> is_panic e) \<and>
   (\<forall>buf e. 255 \<le> length buf \<longrightarrow> fst (handshakeBody buf c) = Inl e \<longrightarrow> \<not> is_panic e)"
proof -
  have "\<not> is_panic e" if "fst (handleSocks5Handshake c) = Some e" for e
  proof -
    from that have "fst (handshakeBody (replicate 258 0) c) = Inl e"
      by (simp add: handshake_proj split: sum.splits)
    then show ?thesis
      by (rule handshakeBody_no_panic [rotated]) simp
  qed
  then show ?thesis
    using handshakeBody_no_panic by blast
qed

theorem C10_buffer_in_bounds_witness:
  "fst (handleSocks5Handshake conn_short) = Some (Wrapf ''read methods'' ErrUnexpectedEOF) \<and>
   \<not> is_panic (Wrapf ''read methods'' ErrUnexpectedEOF)"
proof -
  have op: "\<not> is_closed (Conn conn_short)" and u: "unread conn_short = [5, 255, 0, 1]"
    by (simp_all add: conn_short_def unread_def)
  have "fst (handleSocks5Handshake conn_short) = Some (Wrapf ''read methods'' ErrUnexpectedEOF)"
    using op u by (simp add: handshake_proj handshakeBody_def hs_rules)
  with C10_buffer_in_bounds [of conn_short] show ?thesis
    by simp
qed

section \<open>The claims about the dispatch of a connection\<close>

text \<open>
  Claim C2.  When the first byte of an open connection is not 0x05 and the listener
  takes the connection, \<open>handleConnection\<close> delivers it with the whole stream still
  to be read and nothing written; reading any number of bytes from the delivered
  connection returns that many bytes of the original stream, in order.
\<close>

theorem C2_not_socks_forwarded:
  assumes "\<not> is_closed raw" "concat (incoming raw) = b # rest" "b \<noteq> 0x05"
  shows "\<exists>c'. handleConnection raw SendConn = Delivered c' \<and>
              unread c' = b # rest \<and> written (Conn c') = written raw \<and>
              \<not> is_closed (Conn c') \<and>
              (\<forall>n \<le> length (b # rest). fst (ReadAtLeast n [] c') = Inr (take n (b # rest)))"
proof -
  from handleConnection_other [OF assms, of SendConn] obtain c' where
    c': "handleConnection raw SendConn = Delivered c'" "unread c' = b # rest"
    "written (Conn c') = written raw" "\<not> is_closed (Conn c')"
    by auto
  have "fst (ReadAtLeast n [] c') = Inr (take n (b # rest))" if "n \<le> length (b # rest)" for n
    using ReadAtLeast_spec [OF c'(4), of "[]" n] that c'(2) by simp
  with c' show ?thesis by blast
qed

theorem C2_not_socks_forwarded_witness:
  "\<not> is_closed raw_http \<and> concat (incoming raw_http) = [71, 69, 84, 32, 47] \<and>
   (\<exists>c'. handleConnection raw_http SendConn = Delivered c' \<and>
         unread c' = [71, 69, 84, 32, 47] \<and> written (Conn c') = [] \<and>
         fst (ReadAtLeast 5 [] c') = Inr [71, 69, 84, 32, 47])"
proof -
  have h: "\<not> is_closed raw_http" "concat (incoming raw_http) = 71 # [69, 84, 32, 47]"
    "(71 :: byte) \<noteq> 0x05"
    by (simp_all add: raw_http_def)
  from C2_not_socks_forwarded [OF h] obtain c' where
    "handleConnection raw_http SendConn = Delivered c'" "unread c' = [71, 69, 84, 32, 47]"
    "written (Conn c') = written raw_http"
    "\<forall>n \<le> length [71 :: byte, 69, 84, 32, 47]. fst (ReadAtLeast n [] c') = Inr (take n [71, 69, 84, 32, 47])"
    by auto
  moreover from this(4) have "fst (ReadAtLeast 5 [] c') = Inr [71, 69, 84, 32, 47]"
    by auto
  ultimately show ?thesis using h(1,2) by (auto simp: raw_http_def)
qed

text \<open>
  Claim C4, as stated, fails: a connection whose first byte is 0x04 is delivered to the
  HTTP server with all its bytes.
\<close>

theorem C4_version_four_counterexample:
  "handleConnection \<lparr>incoming = [[0x04, 0x01, 0x00]], written = [], wbudget = None,
                       is_closed = False\<rparr> SendConn =
     Delivered \<lparr>Conn = \<lparr>incoming = [], written = [], wbudget = None, is_closed = False\<rparr>,
                  rbuf = [0x04, 0x01, 0x00]\<rparr>"
  by (simp add: handleConnection_def Peek_def NewPeekConn_def fill_until.simps conn_Read_def
      defaultBufSize_def)

text \<open>
  Claim C4, amended.  A first byte 0x04 is not taken for SOCKS5: \<open>handleConnection\<close>
  delivers the connection to the HTTP server with every byte unread and nothing
  written, and closes it without delivering only when the listener is already closed.
  \<open>handleSocks5Handshake\<close> itself, run on a stream that starts with 0x04, fails with
  the unsupported-version error and writes nothing.
\<close>

theorem C4_version_four:
  assumes "\<not> is_closed raw" "concat (incoming raw) = 0x04 # rest"
  shows "(\<exists>c'. handleConnection raw SendConn = Delivered c' \<and> unread c' = 0x04 # rest \<and>
               written (Conn c') = written raw \<and> \<not> is_closed (Conn c')) \<and>
         (\<exists>c'. handleConnection raw ListenerClosed = Dropped c' \<and> is_closed (Conn c') \<and>
               written (Conn c') = written raw) \<and>
         (\<forall>c b bs. \<not> is_closed (Conn c) \<and> unread c = 0x04 # b # bs \<longrightarrow>
            fst (handleSocks5Handshake c) = Some (UnsupportedVersion 0x04) \<and>
            written (Conn (snd (handleSocks5Handshake c))) = written (Conn c))"
proof -
  have four: "(0x04 :: byte) \<noteq> 0x05" by simp
  from handleConnection_other [OF assms four, of SendConn]
  have a: "\<exists>c'. handleConnection raw SendConn = Delivered c' \<and> unread c' = 0x04 # rest \<and>
               written (Conn c') = written raw \<and> \<not> is_closed (Conn c')"
    by simp
  from handleConnection_other [OF assms four, of ListenerClosed] obtain c' where
    "handleConnection raw ListenerClosed = Dropped (Close c')" "written (Conn c') = written raw"
    by auto
  then have b: "\<exists>c'. handleConnection raw ListenerClosed = Dropped c' \<and> is_closed (Conn c') \<and>
               written (Conn c') = written raw"
    by (intro exI [of _ "Close c'"]) (simp add: Close_def conn_Close_def)
  have c: "fst (handleSocks5Handshake c) = Some (UnsupportedVersion 0x04) \<and>
            written (Conn (snd (handleSocks5Handshake c))) = written (Conn c)"
    if "\<not> is_closed (Conn c)" "unread c = 0x04 # b # bs" for c b bs
    using that by (simp add: handshake_proj handshakeBody_def hs_rules)
  from a b c show ?thesis by blast
qed

theorem C4_version_four_witness:
  "\<not> is_closed raw_v4 \<and> concat (incoming raw_v4) = [0x04, 0x01, 0x00] \<and>
   (\<exists>c'. handleConnection raw_v4 SendConn = Delivered c' \<and> unread c' = [0x04, 0x01, 0x00] \<and>
         written (Conn c') = [] \<and> \<not> is_closed (Conn c')) \<and>
   fst (handleSocks5Handshake (NewPeekConn raw_v4)) = Some (UnsupportedVersion 0x04)"
proof -
  have h: "\<not> is_closed raw_v4" "concat (incoming raw_v4) = 0x04 # [0x01, 0x00]"
    by (simp_all add: raw_v4_def)
  have k: "\<not> is_closed (Conn (NewPeekConn raw_v4)) \<and> unread (NewPeekConn raw_v4) = 0x04 # 0x01 # [0x00]"
    by (simp add: raw_v4_def NewPeekConn_def unread_def)
  from C4_version_four [OF h] k h show ?thesis
    by (auto simp: raw_v4_def)
qed

section \<open>The claims about the mapping table and the HTTP handler\<close>

text \<open>
  Claim C6.  Whatever the table was before: a load that returns an error leaves the
  whole server state, table and time of the last load included, as it was; it returns
  an error exactly when the file cannot be read, the document cannot be decoded, the
  document says \<open>success: false\<close>, or no record has both a short and a long URL; and
  only a load without error replaces the table and sets the time.
\<close>

theorem C6_failed_load_keeps_state:
  "(fst (loadMappingsFromFile readFile unmarshal now ps) \<noteq> None \<longrightarrow>
      snd (loadMappingsFromFile readFile unmarshal now ps) = ps) \<and>
   (fst (loadMappingsFromFile readFile unmarshal now ps) \<noteq> None) =
      (case readFile (ConfigFile (config ps)) of
         Inl err \<Rightarrow> True
       | Inr body \<Rightarrow>
           (case unmarshal body of
              Inl err \<Rightarrow> True
            | Inr doc \<Rightarrow>
                \<not> Success doc \<or> (\<forall>r \<in> set (Data doc). ShortURL r = [] \<or> LongURL r = []))) \<and>
   (fst (loadMappingsFromFile readFile unmarshal now ps) = None \<longrightarrow>
      (\<exists>body doc. readFile (ConfigFile (config ps)) = Inr body \<and> unmarshal body = Inr doc \<and>
         snd (loadMappingsFromFile readFile unmarshal now ps) =
           ps\<lparr>shortLinkMap := buildMap [] (Data doc), lastSyncTime := now\<rparr>))"
  by (auto simp: loadMappingsFromFile_def Let_def buildMap_Nil split: sum.splits)


theorem C6_failed_load_keeps_state_witness:
  "fst (loadMappingsFromFile (\<lambda>path. Inr [])
          (\<lambda>body. Inr ((scenario_doc ''http'')\<lparr>Success := False, Message := ''down''\<rparr>)) 9
          (scenario_server ''http'')) = Some (ConfigError ''down'') \<and>
   snd (loadMappingsFromFile (\<lambda>path. Inr [])
          (\<lambda>body. Inr ((scenario_doc ''http'')\<lparr>Success := False, Message := ''down''\<rparr>)) 9
          (scenario_server ''http'')) = scenario_server ''http''"
proof -
  have "fst (loadMappingsFromFile (\<lambda>path. Inr [])
          (\<lambda>body. Inr ((scenario_doc ''http'')\<lparr>Success := False, Message := ''down''\<rparr>)) 9
          (scenario_server ''http'')) = Some (ConfigError ''down'')"
    by (simp add: loadMappingsFromFile_def)
  with C6_failed_load_keeps_state [of "\<lambda>path. Inr []"
      "\<lambda>body. Inr ((scenario_doc ''http'')\<lparr>Success := False, Message := ''down''\<rparr>)" 9
      "scenario_server ''http''"]
  show ?thesis by simp
qed

text \<open>
  Claim C5.  For a request whose path is none of \<open>/check\<close>, \<open>/health\<close> and
  \<open>/proxy.pac\<close> the handler answers with exactly one of: 400 when the Host header is
  empty; 404, with a body that names the requested host, when the host (cut at its
  first colon and lower-cased) has no entry in the table; 500 when the stored target
  does not parse; and 302 otherwise.
\<close>

theorem C5_handler_statuses:
  assumes "Path (req_URL r) \<noteq> ''/check''" "Path (req_URL r) \<noteq> ''/health''"
    "Path (req_URL r) \<noteq> ''/proxy.pac''"
  shows
    "(req_Host r = [] \<longrightarrow>
        fst (handleRequest url_Parse url_String ps r) = HttpError ''Host header is required'' 400) \<and>
     (req_Host r \<noteq> [] \<and> map_of (shortLinkMap ps) (requestedHostOf (req_Host r)) = None \<longrightarrow>
        fst (handleRequest url_Parse url_String ps r) =
          HttpError (''No short link mapping found for '' @ [CHR 0x22]
                       @ requestedHostOf (req_Host r) @ [CHR 0x22]) 404) \<and>
     (\<forall>target. req_Host r \<noteq> [] \<and>
        map_of (shortLinkMap ps) (requestedHostOf (req_Host r)) = Some target \<longrightarrow>
        (case url_Parse target of
           Inl err \<Rightarrow>
             fst (handleRequest url_Parse url_String ps r) =
               HttpError ''Internal configuration error'' 500
         | Inr u \<Rightarrow>
             (\<exists>location. fst (handleRequest url_Parse url_String ps r) = HttpRedirect location 302)))"
  using handleRequest_cases [OF assms, of url_Parse url_String ps]
  by (auto split: sum.splits)



theorem C5_handler_statuses_witness:
  "Path (req_URL (scenario_request ''unknown'' ''/foo'' [])) = ''/foo'' \<and>
   map_of (shortLinkMap (scenario_server ''http'')) (requestedHostOf ''unknown'') = None \<and>
   fst (handleRequest plain_Parse plain_String (scenario_server ''http'')
          (scenario_request ''unknown'' ''/foo'' [])) =
     HttpError (''No short link mapping found for '' @ [CHR 0x22] @ ''unknown'' @ [CHR 0x22]) 404"
proof -
  have h: "Path (req_URL (scenario_request ''unknown'' ''/foo'' [])) \<noteq> ''/check''"
    "Path (req_URL (scenario_request ''unknown'' ''/foo'' [])) \<noteq> ''/health''"
    "Path (req_URL (scenario_request ''unknown'' ''/foo'' [])) \<noteq> ''/proxy.pac''"
    by (simp_all add: scenario_request_def)
  have k: "req_Host (scenario_request ''unknown'' ''/foo'' []) = ''unknown''"
    "map_of (shortLinkMap (scenario_server ''http'')) (requestedHostOf ''unknown'') = None"
    by (simp_all add: scenario_request_def scenario_server_eq requestedHostOf_scenario)
  from C5_handler_statuses [OF h, of plain_Parse plain_String "scenario_server ''http''"] k
  show ?thesis
    by (simp add: requestedHostOf_scenario scenario_request_def)
qed

text \<open>
  Claim C3, as stated, fails: with \<open>idev\<close> in the table, a request for \<open>/check\<close> with
  that Host header gets the status document, and when the record has an empty protocol
  the stored target \<open>://internal.example.com/app\<close> does not parse and the request gets
  500.
\<close>

theorem C3_redirect_counterexample:
  "map_of (shortLinkMap (scenario_server ''http'')) ''idev'' = Some ''http://internal.example.com/app'' \<and>
   fst (handleRequest plain_Parse plain_String (scenario_server ''http'')
          (scenario_request ''idev'' ''/check'' [])) = StatusDocument 1 7 0 ''80'' ''config.json'' \<and>
   map_of (shortLinkMap (scenario_server [])) ''idev'' = Some ''://internal.example.com/app'' \<and>
   fst (handleRequest plain_Parse plain_String (scenario_server [])
          (scenario_request ''idev'' ''/foo'' ''x=1'')) =
     HttpError ''Internal configuration error'' 500"
  by (simp add: handleRequest_def handleCheck_def scenario_server_eq scenario_request_def
      scenario_config_def emptyURL_def Let_def ToLower_idev parse_no_scheme)

text \<open>
  Claim C3, amended.  For a request whose path is none of \<open>/check\<close>, \<open>/health\<close> and
  \<open>/proxy.pac\<close>, whose Host header (cut at its first colon and lower-cased) is a key
  of the table and whose stored target parses, the handler answers 302 with the URL
  rendered from the parsed target with its path replaced by the joined path and its
  query and fragment by the request's.  The joined path is the target's path without
  its trailing slashes, one slash, and the request path without its leading slashes
  when neither part holds a doubled slash, and it holds no doubled slash when neither
  path holds three slashes in a row.  In the scenario the redirect goes to
  \<open>http://internal.example.com/app/foo?x=1\<close>.
\<close>

theorem C3_redirect_target:
  "(Path (req_URL r) \<noteq> ''/check'' \<and> Path (req_URL r) \<noteq> ''/health'' \<and>
    Path (req_URL r) \<noteq> ''/proxy.pac'' \<and> req_Host r \<noteq> [] \<and>
    map_of (shortLinkMap ps) (requestedHostOf (req_Host r)) = Some target \<and>
    url_Parse target = Inr u \<longrightarrow>
      fst (handleRequest url_Parse url_String ps r) =
        HttpRedirect (url_String (u\<lparr>Path := joinedPath (Path u) (Path (req_URL r)),
                                     RawQuery := RawQuery (req_URL r),
                                     Fragment := Fragment (req_URL r)\<rparr>)) 302 \<and>
      (\<not> double_slash (TrimRight (Path u) CHR ''/'') \<and>
       \<not> double_slash (TrimLeft (Path (req_URL r)) CHR ''/'') \<longrightarrow>
         joinedPath (Path u) (Path (req_URL r)) =
           TrimRight (Path u) CHR ''/'' @ ''/'' @ TrimLeft (Path (req_URL r)) CHR ''/'') \<and>
      (\<not> triple_slash (Path u) \<and> \<not> triple_slash (Path (req_URL r)) \<longrightarrow>
         \<not> double_slash (joinedPath (Path u) (Path (req_URL r))))) \<and>
   fst (handleRequest plain_Parse plain_String (scenario_server ''http'')
          (scenario_request ''idev'' ''/foo'' ''x=1'')) =
     HttpRedirect ''http://internal.example.com/app/foo?x=1'' 302"
proof -
  have general: "fst (handleRequest url_Parse url_String ps r) =
        HttpRedirect (url_String (u\<lparr>Path := joinedPath (Path u) (Path (req_URL r)),
                                     RawQuery := RawQuery (req_URL r),
                                     Fragment := Fragment (req_URL r)\<rparr>)) 302"
    if "Path (req_URL r) \<noteq> ''/check''" "Path (req_URL r) \<noteq> ''/health''"
      "Path (req_URL r) \<noteq> ''/proxy.pac''" "req_Host r \<noteq> []"
      "map_of (shortLinkMap ps) (requestedHostOf (req_Host r)) = Some target"
      "url_Parse target = Inr u"
    using handleRequest_cases [OF that(1-3), of url_Parse url_String ps] that(4-6) by simp
  have scenario: "fst (handleRequest plain_Parse plain_String (scenario_server ''http'')
          (scenario_request ''idev'' ''/foo'' ''x=1'')) =
     HttpRedirect ''http://internal.example.com/app/foo?x=1'' 302"
    by (simp add: handleRequest_def scenario_server_eq scenario_request_def emptyURL_def Let_def
        ToLower_idev parse_scenario plain_String_def TrimRight_def TrimLeft_def Cut_def)
  from general scenario joinedPath_plain joinedPath_single show ?thesis
    by blast
qed

theorem C3_redirect_target_witness:
  "requestedHostOf ''IDEV:8080'' = ''idev'' \<and>
   map_of (shortLinkMap (scenario_server ''http'')) ''idev'' = Some ''http://internal.example.com/app'' \<and>
   \<not> triple_slash ''/docs//api/'' \<and>
   fst (handleRequest plain_Parse plain_String (scenario_server ''http'')
          (scenario_request ''IDEV:8080'' ''/docs//api/'' ''x=1'')) =
     HttpRedirect ''http://internal.example.com/app/docs/api/?x=1'' 302 \<and>
   \<not> double_slash (joinedPath ''/app'' ''/docs//api/'')"
proof -
  let ?r = "scenario_request ''IDEV:8080'' ''/docs//api/'' ''x=1''"
  let ?u = "emptyURL\<lparr>Scheme := ''http'', Host := ''internal.example.com'', Path := ''/app''\<rparr>"
  have h: "Path (req_URL ?r) \<noteq> ''/check'' \<and> Path (req_URL ?r) \<noteq> ''/health'' \<and>
    Path (req_URL ?r) \<noteq> ''/proxy.pac'' \<and> req_Host ?r \<noteq> [] \<and>
    map_of (shortLinkMap (scenario_server ''http'')) (requestedHostOf (req_Host ?r)) =
      Some ''http://internal.example.com/app'' \<and>
    plain_Parse ''http://internal.example.com/app'' = Inr ?u"
    by (simp add: scenario_request_def scenario_server_eq requestedHostOf_scenario parse_scenario)
  have t: "\<not> triple_slash (Path ?u) \<and> \<not> triple_slash (Path (req_URL ?r))"
    by (simp add: scenario_request_def emptyURL_def)
  have j: "joinedPath ''/app'' ''/docs//api/'' = ''/app/docs/api/''"
    by (simp add: joinedPath_def TrimRight_def TrimLeft_def)
  from C3_redirect_target [of ?r "scenario_server ''http''" "''http://internal.example.com/app''"
      plain_Parse ?u plain_String] h t
  have "fst (handleRequest plain_Parse plain_String (scenario_server ''http'') ?r) =
        HttpRedirect (plain_String (?u\<lparr>Path := joinedPath (Path ?u) (Path (req_URL ?r)),
                                     RawQuery := RawQuery (req_URL ?r),
                                     Fragment := Fragment (req_URL ?r)\<rparr>)) 302"
    and "\<not> double_slash (joinedPath (Path ?u) (Path (req_URL ?r)))"
    by blast+
  then show ?thesis
    using h t
    by (simp add: scenario_request_def emptyURL_def j plain_String_def Cut_def
        requestedHostOf_scenario scenario_server_eq)
qed


end
